theory Spec2Isabelle
  imports Main
begin

text \<open>
  A shallow embedding of the log-alerting supervisor: the program negotiates free ports
  for the configuration of a child process, starts the child, reads its output line by
  line, matches every line against the configured patterns and sends an alert to a chat
  webhook, at most once per pattern and cooldown. The definitions follow the functions of
  the Go source one by one and keep their names; the theorems are stated about them.
\<close>

section \<open>Go's machine integers, clock readings and durations\<close>

text \<open>
  Go's \<open>int\<close> and \<open>time.Duration\<close> are 64-bit two's complement values on the platforms
  the program targets. They are modelled as \<open>int\<close>; every arithmetic operation of the
  source that can leave the range is passed through \<open>wrap64\<close>.
\<close>

definition minInt64 :: int where
  "minInt64 = - 9223372036854775808"

definition maxInt64 :: int where
  "maxInt64 = 9223372036854775807"

definition wrap64 :: "int \<Rightarrow> int" where
  "wrap64 x = (x + 9223372036854775808) mod 18446744073709551616 - 9223372036854775808"

definition is_int64 :: "int \<Rightarrow> bool" where
  "is_int64 x = (minInt64 \<le> x \<and> x \<le> maxInt64)"

text \<open>
  A \<open>time.Time\<close> obtained from \<open>time.Now()\<close> carries a monotonic clock reading, and
  \<open>Time.Sub\<close> of two such values subtracts the readings. A time is modelled as that
  reading, in nanoseconds. \<open>Sub\<close> saturates at the least and greatest duration when
  the difference does not fit.
\<close>

definition Sub :: "int \<Rightarrow> int \<Rightarrow> int" where
  "Sub t u =
     (if t - u > maxInt64 then maxInt64
      else if t - u < minInt64 then minInt64
      else t - u)"

definition Minute :: int where
  "Minute = 60000000000"

definition Hour :: int where
  "Hour = 60 * Minute"

section \<open>The alert manager\<close>

text \<open>
  \<open>PatternConfig\<close> and the fields of \<open>AlertManager\<close>. The mutex \<open>mu\<close> is held for the
  whole body of both methods, so each call is atomic; the sequential model leaves the
  field out.
\<close>

record PatternConfig =
  Pattern :: string
  TimeoutMinutes :: int

record AlertManager =
  sentAlerts :: "string \<rightharpoonup> int"
  suppressionCounts :: "string \<rightharpoonup> int"
  defaultCooldown :: int
  patternCooldowns :: "string \<rightharpoonup> int"

definition NewAlertManager :: "int \<Rightarrow> (string \<rightharpoonup> int) \<Rightarrow> AlertManager" where
  "NewAlertManager dflt cooldowns =
     \<lparr> sentAlerts = Map.empty, suppressionCounts = Map.empty,
       defaultCooldown = dflt, patternCooldowns = cooldowns \<rparr>"

text \<open>Reading a Go \<open>map[string]int\<close> at an absent key yields 0 and stores nothing.\<close>

definition count_of :: "(string \<rightharpoonup> int) \<Rightarrow> string \<Rightarrow> int" where
  "count_of m k = (case m k of None \<Rightarrow> 0 | Some c \<Rightarrow> c)"

text \<open>
  \<open>ShouldSendAlert\<close>, with the value of \<open>time.Now()\<close> as the argument \<open>now\<close>. It returns
  the pair of results and the manager as the call leaves it.
\<close>

definition ShouldSendAlert ::
  "AlertManager \<Rightarrow> int \<Rightarrow> string \<Rightarrow> (bool \<times> int) \<times> AlertManager" where
  "ShouldSendAlert am now pattern =
     (let key = pattern;
          cooldown = (case patternCooldowns am pattern of
                        Some c \<Rightarrow> c
                      | None \<Rightarrow> defaultCooldown am);
          cooling = (case sentAlerts am key of
                       Some lastSent \<Rightarrow> Sub now lastSent < cooldown
                     | None \<Rightarrow> False)
      in if cooling then
           (let counts = (suppressionCounts am)
                           (key \<mapsto> wrap64 (count_of (suppressionCounts am) key + 1))
            in ((False, count_of counts key), am\<lparr>suppressionCounts := counts\<rparr>))
         else
           (let suppressionCount = count_of (suppressionCounts am) key
            in ((True, suppressionCount),
                am\<lparr>sentAlerts := (sentAlerts am)(key \<mapsto> now),
                   suppressionCounts := (suppressionCounts am)(key \<mapsto> 0)\<rparr>)))"

definition GetSuppressionCount :: "AlertManager \<Rightarrow> string \<Rightarrow> int \<times> AlertManager" where
  "GetSuppressionCount am pattern = (count_of (suppressionCounts am) pattern, am)"

text \<open>
  A sequence of \<open>ShouldSendAlert\<close> calls, each given as the clock reading and the key.
  The result lists, per call, the key with what the call returned.
\<close>

fun alert_calls ::
  "AlertManager \<Rightarrow> (int \<times> string) list \<Rightarrow> (string \<times> bool \<times> int) list \<times> AlertManager" where
  "alert_calls am [] = ([], am)"
| "alert_calls am ((now, p) # cs) =
     (let (r, am1) = ShouldSendAlert am now p;
          (rs, am2) = alert_calls am1 cs
      in ((p, r) # rs, am2))"

definition effective_cooldown :: "AlertManager \<Rightarrow> string \<Rightarrow> int" where
  "effective_cooldown am p =
     (case patternCooldowns am p of Some c \<Rightarrow> c | None \<Rightarrow> defaultCooldown am)"

text \<open>
  The loop of \<open>main\<close> that fills the cooldown table from the configured rules, in rule
  order. \<open>24 * time.Hour * 365 * 100\<close> is a constant expression; the product with the
  configured minutes is computed at run time and wraps.
\<close>

definition rule_cooldown :: "PatternConfig \<Rightarrow> int" where
  "rule_cooldown patternConfig =
     (if TimeoutMinutes patternConfig = 0 then 24 * Hour * 365 * 100
      else wrap64 (TimeoutMinutes patternConfig * Minute))"

fun main_patternCooldowns ::
  "PatternConfig list \<Rightarrow> (string \<rightharpoonup> int) \<Rightarrow> (string \<rightharpoonup> int)" where
  "main_patternCooldowns [] m = m"
| "main_patternCooldowns (patternConfig # rest) m =
     main_patternCooldowns rest (m(Pattern patternConfig \<mapsto> rule_cooldown patternConfig))"

section \<open>The classifier\<close>

text \<open>
  A compiled \<open>*regexp.Regexp\<close> is determined by the text it was compiled from, which is
  also what its \<open>String\<close> method returns; a compiled pattern is modelled as that text.
  The library's \<open>MatchString\<close> is the parameter \<open>matchString\<close>, applied to the pattern
  and the line.
\<close>

fun searchLog :: "(string \<Rightarrow> string \<Rightarrow> bool) \<Rightarrow> string \<Rightarrow> string list \<Rightarrow> bool \<times> string" where
  "searchLog matchString log [] = (False, [])"
| "searchLog matchString log (pattern # patterns) =
     (if matchString pattern log then (True, pattern)
      else searchLog matchString log patterns)"

section \<open>Functions of Go's standard library used by the program\<close>

text \<open>Strings are byte sequences, as Go's are.\<close>

fun HasPrefix :: "string \<Rightarrow> string \<Rightarrow> bool" where
  "HasPrefix s [] = True"
| "HasPrefix [] (c # p) = False"
| "HasPrefix (x # s) (c # p) = (x = c \<and> HasPrefix s p)"

fun Contains :: "string \<Rightarrow> string \<Rightarrow> bool" where
  "Contains [] substr = (substr = [])"
| "Contains (x # s) substr = (HasPrefix (x # s) substr \<or> Contains s substr)"

text \<open>
  \<open>strings.Split\<close> for a separator of one byte (the program only splits at a comma): the
  pieces between the separators, so one more piece than there are separators.
\<close>

fun Split :: "string \<Rightarrow> char \<Rightarrow> string list" where
  "Split [] sep = [[]]"
| "Split (c # s) sep =
     (if c = sep then [] # Split s sep
      else (case Split s sep of
              [] \<Rightarrow> [[c]]
            | w # ws \<Rightarrow> (c # w) # ws))"

fun Join :: "string list \<Rightarrow> string \<Rightarrow> string" where
  "Join [] sep = []"
| "Join [x] sep = x"
| "Join (x # y # xs) sep = x @ sep @ Join (y # xs) sep"

text \<open>
  \<open>strings.TrimSpace\<close> removes leading and trailing white space as Unicode defines it.
  \<open>white_space\<close> lists the UTF-8 encodings of the code points with that property: the six
  ASCII ones, U+0085, U+00A0, U+1680, U+2000 to U+200A, U+2028, U+2029, U+202F, U+205F and
  U+3000.
\<close>

definition white_space :: "string list" where
  "white_space =
     [[CHR 0x09], [CHR 0x0A], [CHR 0x0B], [CHR 0x0C], [CHR 0x0D], [CHR 0x20],
      [CHR 0xC2, CHR 0x85], [CHR 0xC2, CHR 0xA0],
      [CHR 0xE1, CHR 0x9A, CHR 0x80],
      [CHR 0xE2, CHR 0x80, CHR 0x80], [CHR 0xE2, CHR 0x80, CHR 0x81],
      [CHR 0xE2, CHR 0x80, CHR 0x82], [CHR 0xE2, CHR 0x80, CHR 0x83],
      [CHR 0xE2, CHR 0x80, CHR 0x84], [CHR 0xE2, CHR 0x80, CHR 0x85],
      [CHR 0xE2, CHR 0x80, CHR 0x86], [CHR 0xE2, CHR 0x80, CHR 0x87],
      [CHR 0xE2, CHR 0x80, CHR 0x88], [CHR 0xE2, CHR 0x80, CHR 0x89],
      [CHR 0xE2, CHR 0x80, CHR 0x8A],
      [CHR 0xE2, CHR 0x80, CHR 0xA8], [CHR 0xE2, CHR 0x80, CHR 0xA9],
      [CHR 0xE2, CHR 0x80, CHR 0xAF], [CHR 0xE2, CHR 0x81, CHR 0x9F],
      [CHR 0xE3, CHR 0x80, CHR 0x80]]"

text \<open>The length of the white-space code point a string starts with, or 0.\<close>

definition leading_space :: "string \<Rightarrow> nat" where
  "leading_space s =
     (case List.find (HasPrefix s) white_space of None \<Rightarrow> 0 | Some w \<Rightarrow> length w)"

function TrimLeft :: "string \<Rightarrow> string" where
  "TrimLeft s = (if leading_space s = 0 then s else TrimLeft (drop (leading_space s) s))"
  by pat_completeness auto

lemma leading_space_nonempty: "0 < leading_space s \<Longrightarrow> s \<noteq> []"
  by (auto simp: leading_space_def white_space_def)

termination TrimLeft
proof (relation "measure length")
  fix s :: string
  assume "leading_space s \<noteq> 0"
  then have "0 < leading_space s" and "0 < length s"
    using leading_space_nonempty [of s] by simp_all
  then show "(drop (leading_space s) s, s) \<in> measure length"
    by simp
qed simp

definition HasSuffix :: "string \<Rightarrow> string \<Rightarrow> bool" where
  "HasSuffix s suffix = HasPrefix (rev s) (rev suffix)"

definition trailing_space :: "string \<Rightarrow> nat" where
  "trailing_space s =
     (case List.find (HasSuffix s) white_space of None \<Rightarrow> 0 | Some w \<Rightarrow> length w)"

function TrimRight :: "string \<Rightarrow> string" where
  "TrimRight s =
     (if trailing_space s = 0 then s
      else TrimRight (take (length s - trailing_space s) s))"
  by pat_completeness auto

lemma trailing_space_nonempty: "0 < trailing_space s \<Longrightarrow> s \<noteq> []"
  by (auto simp: trailing_space_def HasSuffix_def white_space_def)

termination TrimRight
proof (relation "measure length")
  fix s :: string
  assume "trailing_space s \<noteq> 0"
  then have "0 < trailing_space s" and "0 < length s"
    using trailing_space_nonempty [of s] by simp_all
  then show "(take (length s - trailing_space s) s, s) \<in> measure length"
    by simp
qed simp

definition TrimSpace :: "string \<Rightarrow> string" where
  "TrimSpace s = TrimRight (TrimLeft s)"

text \<open>
  \<open>strconv.Atoi\<close>: an optional sign, then one or more decimal digits; a value outside
  the range of \<open>int\<close> is a range error. \<open>strconv.Itoa\<close> prints the shortest decimal form.
\<close>

datatype NumError = ErrSyntax | ErrRange

definition digit_of :: "char \<Rightarrow> nat option" where
  "digit_of c =
     map_of [(CHR ''0'', 0), (CHR ''1'', 1), (CHR ''2'', 2), (CHR ''3'', 3), (CHR ''4'', 4),
             (CHR ''5'', 5), (CHR ''6'', 6), (CHR ''7'', 7), (CHR ''8'', 8), (CHR ''9'', 9)] c"

fun parse_digits :: "string \<Rightarrow> nat \<Rightarrow> nat option" where
  "parse_digits [] acc = Some acc"
| "parse_digits (c # cs) acc =
     (case digit_of c of None \<Rightarrow> None | Some d \<Rightarrow> parse_digits cs (10 * acc + d))"

definition Atoi :: "string \<Rightarrow> NumError + int" where
  "Atoi s =
     (let (neg, ds) = (case s of
                         [] \<Rightarrow> (False, s)
                       | c # r \<Rightarrow> if c = CHR ''-'' then (True, r)
                                  else if c = CHR ''+'' then (False, r)
                                  else (False, s))
      in if ds = [] then Inl ErrSyntax
         else (case parse_digits ds 0 of
                 None \<Rightarrow> Inl ErrSyntax
               | Some n \<Rightarrow>
                   (let v = (if neg then - int n else int n)
                    in if is_int64 v then Inr v else Inl ErrRange)))"

function digits :: "nat \<Rightarrow> string" where
  "digits n =
     (if n < 10 then [''0123456789'' ! n]
      else digits (n div 10) @ [''0123456789'' ! (n mod 10)])"
  by pat_completeness auto

termination digits
  by (relation "measure id") auto

definition Itoa :: "int \<Rightarrow> string" where
  "Itoa i = (if i < 0 then CHR ''-'' # digits (nat (- i)) else digits (nat i))"

text \<open>
  \<open>filepath.Ext\<close>: the suffix that starts at the last dot of the last path element, empty
  when that element has no dot. \<open>ext_rev\<close> scans the reversed path, carrying what it has
  passed.
\<close>

fun ext_rev :: "string \<Rightarrow> string \<Rightarrow> string" where
  "ext_rev [] seen = []"
| "ext_rev (c # r) seen =
     (if c = CHR ''/'' then []
      else if c = CHR ''.'' then c # seen
      else ext_rev r (c # seen))"

definition Ext :: "string \<Rightarrow> string" where
  "Ext path = ext_rev (rev path) []"

section \<open>The world outside the program\<close>

text \<open>
  What the program reads from its surroundings is collected in the record \<open>env\<close>, and what
  it changes in the record \<open>world\<close>: the files, the lines written to standard output and
  to the diagnostic stream, and the requests handed to the HTTP client. Decoders, encoders
  and the matcher are library code and stand as fields of \<open>env\<close>; an error is the text of
  its message.
\<close>

datatype yaml =
    YNull
  | YBool bool
  | YInt int
  | YFloat string
  | YString string
  | YSeq "yaml list"
  | YMap "(yaml \<times> yaml) list"

record Config =
  WebhookURL :: string
  Patterns :: "PatternConfig list"
  LogFile :: string
  AlertCooldownMinutes :: int
  DefaultTimeoutMinutes :: int

record http_request =
  Method :: string
  URL :: string
  Header :: "(string \<times> string) list"
  Body :: string

record http_response =
  StatusCode :: int
  Status :: string

record world =
  files :: "string \<rightharpoonup> string"
  stdout :: "string list"
  stderr :: "string list"
  attempts :: "http_request list"

record env =
  flag_config :: string
  flag_msg :: string
  erigonConfigPath :: string
  json_Unmarshal :: "string \<Rightarrow> string + Config"
  regexp_ok :: "string \<Rightarrow> bool"
  matchString :: "string \<Rightarrow> string \<Rightarrow> bool"
  abs_error :: "string \<Rightarrow> string option"
  yaml_Unmarshal :: "string \<Rightarrow> string + (string \<rightharpoonup> yaml)"
  yaml_Marshal :: "(string \<rightharpoonup> yaml) \<Rightarrow> string + string"
  range_order :: "string list"
  listen_ok :: "int \<Rightarrow> bool"
  write_error :: "string \<Rightarrow> string option"
  open_error :: "string \<Rightarrow> string option"
  append_error :: "string \<Rightarrow> string option"
  build_error :: "string option"
  stdout_pipe_error :: "string option"
  stderr_pipe_error :: "string option"
  start_error :: "string option"
  child_output :: "(int \<times> string) list"
  scan_error :: "string option"
  wait_error :: "string option"
  json_Marshal :: "(string \<times> string) list \<Rightarrow> string + string"
  newRequest_error :: "string \<Rightarrow> string \<Rightarrow> string option"
  client_Do :: "nat \<Rightarrow> http_request \<Rightarrow> string + http_response"

text \<open>
  \<open>erigonConfigPath\<close> is the path that \<open>filepath.Join\<close> makes of the flags \<open>repo\<close> and
  \<open>erigon-config\<close>. \<open>child_output\<close> is the sequence of lines the scanner yields, each with
  the clock reading at which the line is handled. \<open>client_Do n\<close> is what the HTTP client
  answers to the request that follows \<open>n\<close> earlier ones: a transport error, or a response.
  \<open>range_order\<close> is the order in which a \<open>range\<close> loop visits the keys of the port table.
  The files are those the program itself reads and writes; the build and the child are
  taken not to touch them.
\<close>

section \<open>The dispatcher\<close>

text \<open>
  \<open>sendGoogleChatAlert\<close>. The body of the request is what \<open>json.Marshal\<close> returns for the
  map with the single entry \<open>text\<close>.
\<close>

definition alert_text :: "string \<Rightarrow> string \<Rightarrow> int \<Rightarrow> string" where
  "alert_text msgPrefix log suppressionCount =
     (let msgContent = msgPrefix @ [CHR 0x0A] @ log
      in if suppressionCount > 0
         then msgContent @ [CHR 0x0A] @ ''Suppressed '' @ Itoa suppressionCount @ '' duplicate(s)''
         else msgContent)"

definition sendGoogleChatAlert ::
  "env \<Rightarrow> string \<Rightarrow> string \<Rightarrow> string \<Rightarrow> int \<Rightarrow> world \<Rightarrow> world" where
  "sendGoogleChatAlert e webhookURL msgPrefix log suppressionCount w =
     (let msgContent = alert_text msgPrefix log suppressionCount;
          message = [(''text'', msgContent)]
      in case json_Marshal e message of
           Inl err \<Rightarrow> w\<lparr>stderr := stderr w @ [''Error creating JSON message: '' @ err]\<rparr>
         | Inr messageBytes \<Rightarrow>
             (case newRequest_error e ''POST'' webhookURL of
                Some err \<Rightarrow> w\<lparr>stderr := stderr w @ [''Error creating request: '' @ err]\<rparr>
              | None \<Rightarrow>
                  (let req = \<lparr> Method = ''POST'', URL = webhookURL,
                               Header = [(''Content-Type'', ''application/json'')],
                               Body = messageBytes \<rparr>;
                       w1 = w\<lparr>attempts := attempts w @ [req]\<rparr>
                   in case client_Do e (length (attempts w)) req of
                        Inl err \<Rightarrow> w1\<lparr>stderr := stderr w1 @ [''Error sending alert: '' @ err]\<rparr>
                      | Inr resp \<Rightarrow>
                          if StatusCode resp > 299
                          then w1\<lparr>stdout := stdout w1 @
                                  [''Alert sent to Google Chat, response status: '' @ Status resp]\<rparr>
                          else w1)))"

section \<open>The line logger and the scan loop\<close>

definition logToFile :: "env \<Rightarrow> string \<Rightarrow> string \<Rightarrow> string \<Rightarrow> world \<Rightarrow> world" where
  "logToFile e log logFile msgPrefix w =
     (case open_error e logFile of
        Some err \<Rightarrow> w\<lparr>stderr := stderr w @ [''Error opening file: '' @ err]\<rparr>
      | None \<Rightarrow>
          (let l = msgPrefix @ '' '' @ log @ '' '' @ [CHR 0x0A];
               old = (case files w logFile of None \<Rightarrow> [] | Some content \<Rightarrow> content)
           in case append_error e logFile of
                Some err \<Rightarrow> w\<lparr>files := (files w)(logFile \<mapsto> old),
                              stderr := stderr w @ [''Error writing to file: '' @ err]\<rparr>
              | None \<Rightarrow> w\<lparr>files := (files w)(logFile \<mapsto> old @ l)\<rparr>))"

text \<open>The body of the loop over the scanned lines, and the loop.\<close>

definition handle_line ::
  "env \<Rightarrow> Config \<Rightarrow> string list \<Rightarrow> AlertManager \<times> world \<Rightarrow> int \<times> string \<Rightarrow>
     AlertManager \<times> world" where
  "handle_line e config regexPatterns st timed_line =
     (let (alertManager, w) = st;
          (now, logLine) = timed_line;
          w1 = w\<lparr>stdout := stdout w @ [logLine]\<rparr>;
          w2 = logToFile e logLine (LogFile config) (flag_msg e) w1;
          (match, pattern) = searchLog (matchString e) logLine regexPatterns
      in if match then
           (let ((shouldSend, suppressionCount), am1) = ShouldSendAlert alertManager now pattern
            in if shouldSend
               then (am1, sendGoogleChatAlert e (WebhookURL config) (flag_msg e) logLine
                            suppressionCount w2)
               else (am1, w2))
         else (alertManager, w2))"

fun scan_loop ::
  "env \<Rightarrow> Config \<Rightarrow> string list \<Rightarrow> AlertManager \<times> world \<Rightarrow> (int \<times> string) list \<Rightarrow>
     AlertManager \<times> world" where
  "scan_loop e config regexPatterns st [] = st"
| "scan_loop e config regexPatterns st (timed_line # rest) =
     scan_loop e config regexPatterns (handle_line e config regexPatterns st timed_line) rest"

section \<open>The port negotiator\<close>

text \<open>
  \<open>findAvailablePort\<close>: \<open>listen port\<close> says whether \<open>net.Listen\<close> succeeds on the port; the
  listener is closed at once, so the probe changes nothing. The loop has no bound: the
  value \<open>None\<close> stands for a call that never returns. The error result of the source is
  always \<open>nil\<close> and is left out.
\<close>

partial_function (option) findAvailablePort :: "(int \<Rightarrow> bool) \<Rightarrow> int \<Rightarrow> int option" where
  "findAvailablePort listen port =
     (if listen port then Some port
      else findAvailablePort listen (wrap64 (port + 1)))"

declare findAvailablePort.simps [code]

text \<open>
  The table \<open>extractPorts\<close> builds from the decoded document: the keys that contain
  \<open>port\<close> and hold a string. The loop stores each such key on its own, so the order in
  which it visits the keys does not show in the table. The progress messages of
  \<open>extractPorts\<close> and \<open>updateConfig\<close> on standard output are not part of the model.
\<close>

definition port_entries :: "(string \<rightharpoonup> yaml) \<Rightarrow> (string \<rightharpoonup> string)" where
  "port_entries config =
     (\<lambda>key. case config key of
               None \<Rightarrow> None
             | Some v \<Rightarrow>
                 if Contains key ''port'' \<or> Contains key ''ports''
                 then (case v of YString portList \<Rightarrow> Some portList | _ \<Rightarrow> None)
                 else None)"

definition extractPorts :: "env \<Rightarrow> world \<Rightarrow> string \<Rightarrow> string + (string \<rightharpoonup> string)" where
  "extractPorts e w configFile =
     (case abs_error e configFile of
        Some err \<Rightarrow> Inl (''failed to get absolute path for config file: '' @ err)
      | None \<Rightarrow>
          (case files w configFile of
             None \<Rightarrow> Inl (''failed to read config file '' @ configFile)
           | Some content \<Rightarrow>
               (case yaml_Unmarshal e content of
                  Inl err \<Rightarrow> Inl (''failed to parse config file '' @ configFile @ '': '' @ err)
                | Inr config \<Rightarrow> Inr (port_entries config))))"

text \<open>
  The inner loop of \<open>updateConfig\<close> over the pieces of one port list, with the list
  \<open>newPortList\<close> built so far; then the rewriting of one port list; then the outer loop
  over the entries of the port table in the order \<open>range\<close> yields them.
\<close>

datatype update_error =
    AtoiError NumError
  | ReadError string
  | ParseError string
  | MarshalError string
  | WriteError string

fun negotiate_ports ::
  "(int \<Rightarrow> bool) \<Rightarrow> string list \<Rightarrow> string list \<Rightarrow> (update_error + string list) option" where
  "negotiate_ports listen [] newPortList = Some (Inr newPortList)"
| "negotiate_ports listen (portStr # portValues) newPortList =
     (case Atoi (TrimSpace portStr) of
        Inl err \<Rightarrow> Some (Inl (AtoiError err))
      | Inr port \<Rightarrow>
          (case findAvailablePort listen port of
             None \<Rightarrow> None
           | Some newPort \<Rightarrow>
               negotiate_ports listen portValues (newPortList @ [Itoa newPort])))"

definition rewrite_portList :: "(int \<Rightarrow> bool) \<Rightarrow> string \<Rightarrow> (update_error + string) option" where
  "rewrite_portList listen portList =
     (case negotiate_ports listen (Split portList CHR '','') [] of
        None \<Rightarrow> None
      | Some (Inl err) \<Rightarrow> Some (Inl err)
      | Some (Inr newPortList) \<Rightarrow> Some (Inr (Join newPortList '', '')))"

fun update_ports ::
  "(int \<Rightarrow> bool) \<Rightarrow> (string \<times> string) list \<Rightarrow> (string \<rightharpoonup> yaml) \<Rightarrow>
     (update_error + (string \<rightharpoonup> yaml)) option" where
  "update_ports listen [] config = Some (Inr config)"
| "update_ports listen ((key, portList) # rest) config =
     (case rewrite_portList listen portList of
        None \<Rightarrow> None
      | Some (Inl err) \<Rightarrow> Some (Inl err)
      | Some (Inr newPortStr) \<Rightarrow> update_ports listen rest (config(key \<mapsto> YString newPortStr)))"

text \<open>The entries a \<open>range\<close> loop over a map yields when it visits the keys in \<open>order\<close>.\<close>

definition range_entries :: "string list \<Rightarrow> (string \<rightharpoonup> string) \<Rightarrow> (string \<times> string) list" where
  "range_entries order m = List.map_filter (\<lambda>k. map_option (Pair k) (m k)) order"

definition new_name :: "string \<Rightarrow> string" where
  "new_name configFile =
     take (length configFile - length (Ext configFile)) configFile @ ''_new'' @ Ext configFile"

definition updateConfig ::
  "env \<Rightarrow> world \<Rightarrow> string \<Rightarrow> (string \<rightharpoonup> string) \<Rightarrow> ((update_error + string) \<times> world) option" where
  "updateConfig e w configFile ports =
     (case files w configFile of
        None \<Rightarrow> Some (Inl (ReadError configFile), w)
      | Some content \<Rightarrow>
          (case yaml_Unmarshal e content of
             Inl err \<Rightarrow> Some (Inl (ParseError err), w)
           | Inr config \<Rightarrow>
               (case update_ports (listen_ok e) (range_entries (range_order e) ports) config of
                  None \<Rightarrow> None
                | Some (Inl err) \<Rightarrow> Some (Inl err, w)
                | Some (Inr config1) \<Rightarrow>
                    (let newConfigFile = new_name configFile
                     in case yaml_Marshal e config1 of
                          Inl err \<Rightarrow> Some (Inl (MarshalError err), w)
                        | Inr tempContent \<Rightarrow>
                            (case write_error e newConfigFile of
                               Some err \<Rightarrow> Some (Inl (WriteError err), w)
                             | None \<Rightarrow>
                                 Some (Inr newConfigFile,
                                       w\<lparr>files := (files w)(newConfigFile \<mapsto> tempContent)\<rparr>))))))"

text \<open>
  Two conditions on a port table, used to state when \<open>updateConfig\<close> returns and what:
  every piece of every port list is an integer; and from every integer piece on, some
  port can be bound, so that each probe returns.
\<close>

definition all_integers :: "(string \<rightharpoonup> string) \<Rightarrow> bool" where
  "all_integers ports =
     (\<forall>k portList piece.
        ports k = Some portList \<and> piece \<in> set (Split portList CHR '','') \<longrightarrow>
        \<not> isl (Atoi (TrimSpace piece)))"

definition probes_return :: "(int \<Rightarrow> bool) \<Rightarrow> (string \<rightharpoonup> string) \<Rightarrow> bool" where
  "probes_return listen ports =
     (\<forall>k portList piece p.
        ports k = Some portList \<and> piece \<in> set (Split portList CHR '','') \<and>
        Atoi (TrimSpace piece) = Inr p \<longrightarrow>
        (\<exists>q. p \<le> q \<and> q \<le> maxInt64 \<and> listen q))"

section \<open>The supervisor\<close>

text \<open>
  How \<open>main\<close> ends: it returns, and its deferred calls run; or \<open>log.Fatalf\<close> writes its
  message and calls \<open>os.Exit(1)\<close>, which ends the process at once, without running
  deferred calls; or \<open>regexp.MustCompile\<close> panics, before any call is deferred.
  \<open>os_Remove\<close> deletes a file. The message of the fatal error of \<open>updateConfig\<close> is
  modelled without the text of the error value.
\<close>

datatype ending = Returned | Exited | Panicked

definition Fatalf :: "string \<Rightarrow> world \<Rightarrow> ending \<times> world" where
  "Fatalf msg w = (Exited, w\<lparr>stderr := stderr w @ [msg]\<rparr>)"

definition os_Remove :: "string \<Rightarrow> world \<Rightarrow> world" where
  "os_Remove name w = w\<lparr>files := (files w)(name := None)\<rparr>"

definition readConfig :: "env \<Rightarrow> world \<Rightarrow> string \<Rightarrow> string + Config" where
  "readConfig e w filePath =
     (case files w filePath of
        None \<Rightarrow> Inl (''failed to read config file '' @ filePath)
      | Some content \<Rightarrow>
          (case json_Unmarshal e content of
             Inl err \<Rightarrow> Inl (''failed to parse config file '' @ filePath @ '': '' @ err)
           | Inr config \<Rightarrow> Inr config))"

text \<open>
  The part of \<open>main\<close> that follows \<open>defer os.Remove(tempConfigFile)\<close>: the build, the
  start of the child, the scan loop and the wait. The deferred removal runs where this
  part returns, and nowhere else.
\<close>

definition supervise ::
  "env \<Rightarrow> Config \<Rightarrow> string list \<Rightarrow> AlertManager \<Rightarrow> string \<Rightarrow> world \<Rightarrow> ending \<times> world" where
  "supervise e config regexPatterns alertManager tempConfigFile w =
     (case build_error e of
        Some err \<Rightarrow> Fatalf (''Build failed: '' @ err) w
      | None \<Rightarrow>
     (case stdout_pipe_error e of
        Some err \<Rightarrow> Fatalf (''Error creating stdout pipe: '' @ err) w
      | None \<Rightarrow>
     (case stderr_pipe_error e of
        Some err \<Rightarrow> Fatalf (''Error creating stderr pipe: '' @ err) w
      | None \<Rightarrow>
     (case start_error e of
        Some err \<Rightarrow> Fatalf (''Error starting cdk-erigon: '' @ err) w
      | None \<Rightarrow>
          (let (am1, w1) = scan_loop e config regexPatterns (alertManager, w) (child_output e);
               w2 = (case scan_error e of
                       Some err \<Rightarrow> w1\<lparr>stderr := stderr w1 @ [''Error reading log output: '' @ err]\<rparr>
                     | None \<Rightarrow> w1)
           in case wait_error e of
                Some err \<Rightarrow> Fatalf (''cdk-erigon finished with error: '' @ err) w2
              | None \<Rightarrow> (Returned, os_Remove tempConfigFile w2))))))"

definition main :: "env \<Rightarrow> world \<Rightarrow> (ending \<times> world) option" where
  "main e w =
     (case readConfig e w (flag_config e) of
        Inl err \<Rightarrow> Some (Returned, w\<lparr>stderr := stderr w @ [''Error reading config file: '' @ err]\<rparr>)
      | Inr config \<Rightarrow>
          if \<not> list_all (regexp_ok e) (map Pattern (Patterns config)) then Some (Panicked, w)
          else
            (let regexPatterns = map Pattern (Patterns config);
                 cooldowns = main_patternCooldowns (Patterns config) Map.empty;
                 dflt = wrap64 (DefaultTimeoutMinutes config * Minute);
                 alertManager = NewAlertManager dflt cooldowns
             in case extractPorts e w (erigonConfigPath e) of
                  Inl err \<Rightarrow> Some (Fatalf (''Error extracting ports from config file: '' @ err) w)
                | Inr originalPorts \<Rightarrow>
                    (case updateConfig e w (erigonConfigPath e) originalPorts of
                       None \<Rightarrow> None
                     | Some (Inl err, w1) \<Rightarrow> Some (Fatalf ''Error updating config file'' w1)
                     | Some (Inr tempConfigFile, w1) \<Rightarrow>
                         Some (supervise e config regexPatterns alertManager tempConfigFile w1))))"

section \<open>A concrete run\<close>

text \<open>
  A configuration, surroundings and an initial world to run the model on: one rule
  \<open>ERROR\<close> with a cooldown of five minutes, a child configuration whose port 8545 is taken,
  and a child that prints four lines and exits with status zero. The matcher of this run
  searches for the pattern as a plain substring.
\<close>

definition demo_config :: Config where
  "demo_config =
     \<lparr> WebhookURL = ''https://chat.example/hook'',
       Patterns = [\<lparr>Pattern = ''ERROR'', TimeoutMinutes = 5\<rparr>],
       LogFile = ''alerts.log'',
       AlertCooldownMinutes = 0,
       DefaultTimeoutMinutes = 10 \<rparr>"

definition demo_document :: "string \<rightharpoonup> yaml" where
  "demo_document = [''chain'' \<mapsto> YString ''bali'', ''http.port'' \<mapsto> YString ''8545'']"

definition demo_env :: env where
  "demo_env =
     \<lparr> flag_config = ''config.json'',
       flag_msg = ''node-1'',
       erigonConfigPath = ''./hermezconfig-bali.yaml'',
       json_Unmarshal = (\<lambda>content. Inr demo_config),
       regexp_ok = (\<lambda>pattern. True),
       matchString = (\<lambda>pattern log. Contains log pattern),
       abs_error = (\<lambda>path. None),
       yaml_Unmarshal = (\<lambda>content. Inr demo_document),
       yaml_Marshal = (\<lambda>config. Inr ''rewritten''),
       range_order = [''http.port''],
       listen_ok = (\<lambda>port. port \<noteq> 8545),
       write_error = (\<lambda>path. None),
       open_error = (\<lambda>path. None),
       append_error = (\<lambda>path. None),
       build_error = None,
       stdout_pipe_error = None,
       stderr_pipe_error = None,
       start_error = None,
       child_output = [(0, ''info''), (0, ''ERROR disk full''),
                       (1 * Minute, ''ERROR disk full''), (2 * Minute, ''ok'')],
       scan_error = None,
       wait_error = None,
       json_Marshal = (\<lambda>message. case message of
                         [(k, v)] \<Rightarrow> Inr (''{'' @ k @ '': '' @ v @ ''}'')
                       | _ \<Rightarrow> Inl ''unsupported''),
       newRequest_error = (\<lambda>method url. None),
       client_Do = (\<lambda>n req. Inr \<lparr>StatusCode = 200, Status = ''200 OK''\<rparr>) \<rparr>"

definition demo_world :: world where
  "demo_world =
     \<lparr> files = [''config.json'' \<mapsto> ''run configuration'',
                ''./hermezconfig-bali.yaml'' \<mapsto> ''child configuration''],
       stdout = [], stderr = [], attempts = [] \<rparr>"

section \<open>Rules for running the model on concrete inputs\<close>

lemmas eval_strings =
  Atoi_def TrimSpace_def leading_space_def trailing_space_def white_space_def HasSuffix_def
  digit_of_def is_int64_def minInt64_def maxInt64_def Itoa_def

lemmas eval_demo =
  demo_env_def demo_world_def demo_config_def demo_document_def

lemmas eval_main =
  main_def readConfig_def extractPorts_def port_entries_def updateConfig_def range_entries_def
  map_filter_simps rewrite_portList_def findAvailablePort.simps wrap64_def Fatalf_def Let_def
  new_name_def Ext_def supervise_def handle_line_def logToFile_def sendGoogleChatAlert_def
  alert_text_def ShouldSendAlert_def NewAlertManager_def rule_cooldown_def Sub_def count_of_def
  os_Remove_def Minute_def

section \<open>Properties of the alert manager\<close>

lemma wrap64_id: "is_int64 x \<Longrightarrow> wrap64 x = x"
  by (simp add: wrap64_def is_int64_def minInt64_def maxInt64_def)

lemma is_int64_wrap64: "is_int64 (wrap64 x)"
proof -
  have "0 \<le> (x + 9223372036854775808) mod 18446744073709551616"
    and "(x + 9223372036854775808) mod 18446744073709551616 < 18446744073709551616"
    by simp_all
  then show ?thesis
    by (simp add: wrap64_def is_int64_def minInt64_def maxInt64_def)
qed

lemma Sub_less_iff:
  assumes "is_int64 c" and "minInt64 \<le> t - u"
  shows "Sub t u < c \<longleftrightarrow> t - u < c"
  using assms by (auto simp: Sub_def is_int64_def)

lemma ShouldSendAlert_other:
  assumes "q \<noteq> p"
  shows "sentAlerts (snd (ShouldSendAlert am t q)) p = sentAlerts am p"
    and "suppressionCounts (snd (ShouldSendAlert am t q)) p = suppressionCounts am p"
  using assms by (simp_all add: ShouldSendAlert_def Let_def)

lemma ShouldSendAlert_config:
  "patternCooldowns (snd (ShouldSendAlert am t q)) = patternCooldowns am"
  "defaultCooldown (snd (ShouldSendAlert am t q)) = defaultCooldown am"
  by (simp_all add: ShouldSendAlert_def Let_def)

lemma effective_cooldown_step:
  "effective_cooldown (snd (ShouldSendAlert am t q)) p = effective_cooldown am p"
  by (simp add: effective_cooldown_def ShouldSendAlert_config cong: option.case_cong)

lemma ShouldSendAlert_step:
  assumes "is_int64 (effective_cooldown am P)"
    and "\<forall>lastSent. sentAlerts am P = Some lastSent \<longrightarrow> lastSent \<le> T"
  shows "ShouldSendAlert am T P =
     (if sentAlerts am P = None \<or>
         (\<exists>lastSent. sentAlerts am P = Some lastSent \<and> T - lastSent \<ge> effective_cooldown am P)
      then ((True, count_of (suppressionCounts am) P),
            am\<lparr>sentAlerts := (sentAlerts am)(P \<mapsto> T),
               suppressionCounts := (suppressionCounts am)(P \<mapsto> 0)\<rparr>)
      else ((False, wrap64 (count_of (suppressionCounts am) P + 1)),
            am\<lparr>suppressionCounts := (suppressionCounts am)
                   (P \<mapsto> wrap64 (count_of (suppressionCounts am) P + 1))\<rparr>))"
proof (cases "sentAlerts am P")
  case None
  then show ?thesis by (simp add: ShouldSendAlert_def Let_def)
next
  case (Some lastSent)
  with assms(2) have "minInt64 \<le> T - lastSent" by (simp add: minInt64_def)
  with assms(1) have "Sub T lastSent < effective_cooldown am P \<longleftrightarrow> T - lastSent < effective_cooldown am P"
    by (rule Sub_less_iff)
  with Some show ?thesis
    by (auto simp: ShouldSendAlert_def Let_def effective_cooldown_def count_of_def)
qed

text \<open>While key P is cooling: every call for P is suppressed and counted.\<close>
lemma cooling_run:
  assumes "sentAlerts am P = Some t1"
    and "is_int64 (effective_cooldown am P)"
    and "count_of (suppressionCounts am) P = k" and "0 \<le> k"
    and "\<forall>t \<in> set (map fst (filter (\<lambda>c. snd c = P) calls)). t1 \<le> t \<and> t - t1 < effective_cooldown am P"
    and "k + int (length (filter (\<lambda>c. snd c = P) calls)) \<le> maxInt64"
  shows "map snd (filter (\<lambda>r. fst r = P) (fst (alert_calls am calls))) =
           map (\<lambda>j. (False, k + 1 + int j)) [0..<length (filter (\<lambda>c. snd c = P) calls)]
         \<and> sentAlerts (snd (alert_calls am calls)) P = Some t1
         \<and> count_of (suppressionCounts (snd (alert_calls am calls))) P =
             k + int (length (filter (\<lambda>c. snd c = P) calls))
         \<and> effective_cooldown (snd (alert_calls am calls)) P = effective_cooldown am P"
  using assms
proof (induction calls arbitrary: am k)
  case Nil
  then show ?case by simp
next
  case (Cons c cs)
  obtain t q where c: "c = (t, q)" by (cases c)
  obtain r am1 where step: "ShouldSendAlert am t q = (r, am1)" by (cases "ShouldSendAlert am t q")
  obtain rs am2 where rest: "alert_calls am1 cs = (rs, am2)" by (cases "alert_calls am1 cs")
  have am1: "am1 = snd (ShouldSendAlert am t q)" using step by simp
  have cd: "effective_cooldown am1 P = effective_cooldown am P"
    by (simp add: am1 effective_cooldown_step)
  show ?case
  proof (cases "q = P")
    case False
    have s1: "sentAlerts am1 P = Some t1" and c1: "count_of (suppressionCounts am1) P = k"
      using False Cons.prems(1,3) by (simp_all add: am1 ShouldSendAlert_other count_of_def)
    have "map snd (filter (\<lambda>r. fst r = P) (fst (alert_calls am1 cs))) =
           map (\<lambda>j. (False, k + 1 + int j)) [0..<length (filter (\<lambda>c. snd c = P) cs)]
         \<and> sentAlerts (snd (alert_calls am1 cs)) P = Some t1
         \<and> count_of (suppressionCounts (snd (alert_calls am1 cs))) P =
             k + int (length (filter (\<lambda>c. snd c = P) cs))
         \<and> effective_cooldown (snd (alert_calls am1 cs)) P = effective_cooldown am1 P"
      using Cons.prems False c cd
      by (intro Cons.IH s1 c1) simp_all
    then show ?thesis using False c step rest cd by simp
  next
    case True
    have tt: "t1 \<le> t" "t - t1 < effective_cooldown am P"
      using Cons.prems(5) True c by simp_all
    have kk: "is_int64 (k + 1)"
      using Cons.prems(4,6) True c by (simp add: is_int64_def minInt64_def)
    have "ShouldSendAlert am t P =
        ((False, wrap64 (count_of (suppressionCounts am) P + 1)),
            am\<lparr>suppressionCounts := (suppressionCounts am)
                   (P \<mapsto> wrap64 (count_of (suppressionCounts am) P + 1))\<rparr>)"
      using ShouldSendAlert_step [of am P t] Cons.prems(1,2) tt by simp
    then have r: "r = (False, k + 1)"
      and a1: "am1 = am\<lparr>suppressionCounts := (suppressionCounts am)(P \<mapsto> k + 1)\<rparr>"
      using step True Cons.prems(3) wrap64_id [OF kk] by simp_all
    have s1: "sentAlerts am1 P = Some t1" and c1: "count_of (suppressionCounts am1) P = k + 1"
      using Cons.prems(1) by (simp_all add: a1 count_of_def)
    have "map snd (filter (\<lambda>r. fst r = P) (fst (alert_calls am1 cs))) =
           map (\<lambda>j. (False, (k + 1) + 1 + int j)) [0..<length (filter (\<lambda>c. snd c = P) cs)]
         \<and> sentAlerts (snd (alert_calls am1 cs)) P = Some t1
         \<and> count_of (suppressionCounts (snd (alert_calls am1 cs))) P =
             (k + 1) + int (length (filter (\<lambda>c. snd c = P) cs))
         \<and> effective_cooldown (snd (alert_calls am1 cs)) P = effective_cooldown am1 P"
      using Cons.prems True c cd
      by (intro Cons.IH s1 c1) simp_all
    then show ?thesis using True c step rest cd r
      by (simp add: map_upt_Suc add.commute add.left_commute del: upt_Suc)
  qed
qed

lemma ShouldSendAlert_elapsed:
  assumes "sentAlerts am P = Some lastSent"
    and "is_int64 (effective_cooldown am P)"
    and "effective_cooldown am P \<le> T - lastSent"
  shows "ShouldSendAlert am T P =
      ((True, count_of (suppressionCounts am) P),
            am\<lparr>sentAlerts := (sentAlerts am)(P \<mapsto> T),
               suppressionCounts := (suppressionCounts am)(P \<mapsto> 0)\<rparr>)"
proof -
  have "minInt64 \<le> T - lastSent" using assms(2,3) by (simp add: is_int64_def)
  with assms(2) have "Sub T lastSent < effective_cooldown am P \<longleftrightarrow> T - lastSent < effective_cooldown am P"
    by (rule Sub_less_iff)
  with assms(1,3) show ?thesis
    by (simp add: ShouldSendAlert_def Let_def effective_cooldown_def)
qed

lemma ShouldSendAlert_first:
  assumes "sentAlerts am P = None"
  shows "ShouldSendAlert am T P =
      ((True, count_of (suppressionCounts am) P),
            am\<lparr>sentAlerts := (sentAlerts am)(P \<mapsto> T),
               suppressionCounts := (suppressionCounts am)(P \<mapsto> 0)\<rparr>)"
  using assms by (simp add: ShouldSendAlert_def Let_def)

lemma burst_run:
  assumes "sentAlerts am P = None"
    and "count_of (suppressionCounts am) P = 0"
    and "is_int64 (effective_cooldown am P)"
    and "map fst (filter (\<lambda>c. snd c = P) calls) = t1 # rest"
    and "\<forall>t \<in> set rest. t1 \<le> t \<and> t - t1 < effective_cooldown am P"
    and "int (length rest) \<le> maxInt64"
  shows "map snd (filter (\<lambda>r. fst r = P) (fst (alert_calls am calls))) =
           (True, 0) # map (\<lambda>j. (False, 1 + int j)) [0..<length rest]
         \<and> sentAlerts (snd (alert_calls am calls)) P = Some t1
         \<and> count_of (suppressionCounts (snd (alert_calls am calls))) P = int (length rest)
         \<and> effective_cooldown (snd (alert_calls am calls)) P = effective_cooldown am P"
  using assms
proof (induction calls arbitrary: am)
  case Nil
  then show ?case by simp
next
  case (Cons c cs)
  obtain t q where c: "c = (t, q)" by (cases c)
  obtain r am1 where step: "ShouldSendAlert am t q = (r, am1)" by (cases "ShouldSendAlert am t q")
  obtain rs am2 where run: "alert_calls am1 cs = (rs, am2)" by (cases "alert_calls am1 cs")
  have am1: "am1 = snd (ShouldSendAlert am t q)" using step by simp
  have cd: "effective_cooldown am1 P = effective_cooldown am P"
    by (simp add: am1 effective_cooldown_step)
  show ?case
  proof (cases "q = P")
    case False
    have s1: "sentAlerts am1 P = None" and c1: "count_of (suppressionCounts am1) P = 0"
      using False Cons.prems(1,2) by (simp_all add: am1 ShouldSendAlert_other count_of_def)
    have "map snd (filter (\<lambda>r. fst r = P) (fst (alert_calls am1 cs))) =
           (True, 0) # map (\<lambda>j. (False, 1 + int j)) [0..<length rest]
         \<and> sentAlerts (snd (alert_calls am1 cs)) P = Some t1
         \<and> count_of (suppressionCounts (snd (alert_calls am1 cs))) P = int (length rest)
         \<and> effective_cooldown (snd (alert_calls am1 cs)) P = effective_cooldown am1 P"
      using Cons.prems False c cd
      by (intro Cons.IH s1 c1) simp_all
    then show ?thesis using False c step run cd by simp
  next
    case True
    have t: "t = t1" and rest: "map fst (filter (\<lambda>c. snd c = P) cs) = rest"
      using Cons.prems(4) True c by simp_all
    have r: "r = (True, 0)"
      and a1: "am1 = am\<lparr>sentAlerts := (sentAlerts am)(P \<mapsto> t1),
               suppressionCounts := (suppressionCounts am)(P \<mapsto> 0)\<rparr>"
      using ShouldSendAlert_first [OF Cons.prems(1), of t1] step True t Cons.prems(2) by simp_all
    have s1: "sentAlerts am1 P = Some t1" and c1: "count_of (suppressionCounts am1) P = 0"
      by (simp_all add: a1 count_of_def)
    have len: "length (filter (\<lambda>c. snd c = P) cs) = length rest"
      using rest by (metis length_map)
    have "map snd (filter (\<lambda>r. fst r = P) (fst (alert_calls am1 cs))) =
           map (\<lambda>j. (False, 0 + 1 + int j)) [0..<length (filter (\<lambda>c. snd c = P) cs)]
         \<and> sentAlerts (snd (alert_calls am1 cs)) P = Some t1
         \<and> count_of (suppressionCounts (snd (alert_calls am1 cs))) P =
             0 + int (length (filter (\<lambda>c. snd c = P) cs))
         \<and> effective_cooldown (snd (alert_calls am1 cs)) P = effective_cooldown am1 P"
      using Cons.prems(3,5,6) cd rest len
      by (intro cooling_run s1 c1) simp_all
    then show ?thesis using True c step run cd r len by simp
  qed
qed

text \<open>
  Claim C1. With the effective cooldown \<open>C\<close> of key \<open>P\<close> (its own entry, else the default), a
  call at time \<open>T\<close> that finds no earlier send for \<open>P\<close>, or finds \<open>T - lastSentAt \<ge> C\<close>, returns
  true with the count accumulated so far, stores \<open>T\<close> as the time of the last send and
  resets the count to 0; any other call returns false with the incremented count, stores
  that count and leaves the time of the last send alone. Consequently, when the calls for
  a fresh key \<open>P\<close> come at \<open>t1\<close> and then at times \<open>rest\<close> less than \<open>C\<close> after \<open>t1\<close> (other keys
  may be called in between), only the first of these \<open>N = length rest + 1\<close> calls returns
  true, reporting 0; the others return false with counts 1, 2, ...; and a later call for
  \<open>P\<close> at least \<open>C\<close> after \<open>t1\<close> returns true and reports \<open>N - 1\<close>. Here \<open>C\<close> is a value of
  \<open>time.Duration\<close>, no recorded send lies after the call, and the count stays below the
  largest \<open>int\<close>.
\<close>

theorem ShouldSendAlert_cooldown_contract:
  assumes "is_int64 (effective_cooldown am P)"
  shows
    "((\<forall>lastSent. sentAlerts am P = Some lastSent \<longrightarrow> lastSent \<le> T) \<and>
      is_int64 (count_of (suppressionCounts am) P + 1) \<longrightarrow>
        ShouldSendAlert am T P =
          (if sentAlerts am P = None \<or>
              (\<exists>lastSent. sentAlerts am P = Some lastSent \<and> T - lastSent \<ge> effective_cooldown am P)
           then ((True, count_of (suppressionCounts am) P),
                 am\<lparr>sentAlerts := (sentAlerts am)(P \<mapsto> T),
                    suppressionCounts := (suppressionCounts am)(P \<mapsto> 0)\<rparr>)
           else ((False, count_of (suppressionCounts am) P + 1),
                 am\<lparr>suppressionCounts := (suppressionCounts am)
                        (P \<mapsto> count_of (suppressionCounts am) P + 1)\<rparr>)))
     \<and>
     (sentAlerts am P = None \<and> count_of (suppressionCounts am) P = 0 \<and>
      map fst (filter (\<lambda>c. snd c = P) calls) = t1 # rest \<and>
      (\<forall>t \<in> set rest. t1 \<le> t \<and> t - t1 < effective_cooldown am P) \<and>
      int (length rest) \<le> maxInt64 \<and>
      effective_cooldown am P \<le> T' - t1 \<longrightarrow>
        map snd (filter (\<lambda>r. fst r = P) (fst (alert_calls am calls))) =
          (True, 0) # map (\<lambda>j. (False, int j)) [1..<Suc (length rest)] \<and>
        fst (ShouldSendAlert (snd (alert_calls am calls)) T' P) = (True, int (length rest)))"
proof (intro conjI impI)
  assume h: "(\<forall>lastSent. sentAlerts am P = Some lastSent \<longrightarrow> lastSent \<le> T) \<and>
      is_int64 (count_of (suppressionCounts am) P + 1)"
  then show "ShouldSendAlert am T P =
          (if sentAlerts am P = None \<or>
              (\<exists>lastSent. sentAlerts am P = Some lastSent \<and> T - lastSent \<ge> effective_cooldown am P)
           then ((True, count_of (suppressionCounts am) P),
                 am\<lparr>sentAlerts := (sentAlerts am)(P \<mapsto> T),
                    suppressionCounts := (suppressionCounts am)(P \<mapsto> 0)\<rparr>)
           else ((False, count_of (suppressionCounts am) P + 1),
                 am\<lparr>suppressionCounts := (suppressionCounts am)
                        (P \<mapsto> count_of (suppressionCounts am) P + 1)\<rparr>))"
    using ShouldSendAlert_step [OF assms, of T] wrap64_id by simp
next
  assume h: "sentAlerts am P = None \<and> count_of (suppressionCounts am) P = 0 \<and>
      map fst (filter (\<lambda>c. snd c = P) calls) = t1 # rest \<and>
      (\<forall>t \<in> set rest. t1 \<le> t \<and> t - t1 < effective_cooldown am P) \<and>
      int (length rest) \<le> maxInt64 \<and>
      effective_cooldown am P \<le> T' - t1"
  let ?am = "snd (alert_calls am calls)"
  have b: "map snd (filter (\<lambda>r. fst r = P) (fst (alert_calls am calls))) =
           (True, 0) # map (\<lambda>j. (False, 1 + int j)) [0..<length rest]
         \<and> sentAlerts ?am P = Some t1
         \<and> count_of (suppressionCounts ?am) P = int (length rest)
         \<and> effective_cooldown ?am P = effective_cooldown am P"
    using h assms by (intro burst_run) simp_all
  have "map (\<lambda>j. (False, 1 + int j)) [0..<n] = map (\<lambda>j. (False, int j)) [1..<Suc n]" for n
    by (induction n) simp_all
  with b show "map snd (filter (\<lambda>r. fst r = P) (fst (alert_calls am calls))) =
          (True, 0) # map (\<lambda>j. (False, int j)) [1..<Suc (length rest)]"
    by simp
  have "ShouldSendAlert ?am T' P =
      ((True, count_of (suppressionCounts ?am) P),
            ?am\<lparr>sentAlerts := (sentAlerts ?am)(P \<mapsto> T'),
               suppressionCounts := (suppressionCounts ?am)(P \<mapsto> 0)\<rparr>)"
    using b h assms by (intro ShouldSendAlert_elapsed [where lastSent = t1]) simp_all
  with b show "fst (ShouldSendAlert ?am T' P) = (True, int (length rest))"
    by simp
qed

theorem ShouldSendAlert_cooldown_contract_witness:
  "ShouldSendAlert
     \<lparr> sentAlerts = [''ERROR'' \<mapsto> 0], suppressionCounts = [''ERROR'' \<mapsto> 2],
       defaultCooldown = 10 * Minute, patternCooldowns = [''ERROR'' \<mapsto> 5 * Minute] \<rparr>
     (4 * Minute) ''ERROR'' =
     ((False, 3),
      \<lparr> sentAlerts = [''ERROR'' \<mapsto> 0], suppressionCounts = [''ERROR'' \<mapsto> 3],
        defaultCooldown = 10 * Minute, patternCooldowns = [''ERROR'' \<mapsto> 5 * Minute] \<rparr>)
   \<and> ShouldSendAlert
     \<lparr> sentAlerts = [''ERROR'' \<mapsto> 0], suppressionCounts = [''ERROR'' \<mapsto> 2],
       defaultCooldown = 10 * Minute, patternCooldowns = [''ERROR'' \<mapsto> 5 * Minute] \<rparr>
     (5 * Minute) ''ERROR'' =
     ((True, 2),
      \<lparr> sentAlerts = [''ERROR'' \<mapsto> 5 * Minute], suppressionCounts = [''ERROR'' \<mapsto> 0],
        defaultCooldown = 10 * Minute, patternCooldowns = [''ERROR'' \<mapsto> 5 * Minute] \<rparr>)
   \<and> map snd (filter (\<lambda>r. fst r = ''ERROR'')
        (fst (alert_calls (NewAlertManager (10 * Minute) [''ERROR'' \<mapsto> 5 * Minute])
           [(0, ''ERROR''), (1 * Minute, ''ERROR''), (2 * Minute, ''WARN''),
            (4 * Minute, ''ERROR'')]))) =
      [(True, 0), (False, 1), (False, 2)]
   \<and> fst (ShouldSendAlert
        (snd (alert_calls (NewAlertManager (10 * Minute) [''ERROR'' \<mapsto> 5 * Minute])
           [(0, ''ERROR''), (1 * Minute, ''ERROR''), (2 * Minute, ''WARN''),
            (4 * Minute, ''ERROR'')]))
        (5 * Minute) ''ERROR'') = (True, 2)"
proof -
  let ?am = "\<lparr> sentAlerts = [''ERROR'' \<mapsto> 0], suppressionCounts = [''ERROR'' \<mapsto> 2],
       defaultCooldown = 10 * Minute, patternCooldowns = [''ERROR'' \<mapsto> 5 * Minute] \<rparr>"
  let ?new = "NewAlertManager (10 * Minute) [''ERROR'' \<mapsto> 5 * Minute]"
  let ?calls = "[(0, ''ERROR''), (1 * Minute, ''ERROR''), (2 * Minute, ''WARN''),
            (4 * Minute, ''ERROR'')]"
  have c: "is_int64 (effective_cooldown ?am ''ERROR'')"
    by (simp add: effective_cooldown_def is_int64_def minInt64_def maxInt64_def Minute_def)
  have c': "is_int64 (effective_cooldown ?new ''ERROR'')"
    by (simp add: effective_cooldown_def NewAlertManager_def is_int64_def minInt64_def
        maxInt64_def Minute_def)
  have h: "(\<forall>lastSent. sentAlerts ?am ''ERROR'' = Some lastSent \<longrightarrow> lastSent \<le> T) \<and>
      is_int64 (count_of (suppressionCounts ?am) ''ERROR'' + 1)" if "0 \<le> T" for T
    using that by (simp add: count_of_def is_int64_def minInt64_def maxInt64_def)
  have s1: "ShouldSendAlert ?am (4 * Minute) ''ERROR'' =
      ((False, 3), ?am\<lparr>suppressionCounts := (suppressionCounts ?am)(''ERROR'' \<mapsto> 3)\<rparr>)"
    using ShouldSendAlert_cooldown_contract [OF c, of "4 * Minute"] h [of "4 * Minute"]
    by (simp add: effective_cooldown_def count_of_def Minute_def)
  have s2: "ShouldSendAlert ?am (5 * Minute) ''ERROR'' =
      ((True, 2), ?am\<lparr>sentAlerts := (sentAlerts ?am)(''ERROR'' \<mapsto> 5 * Minute),
                      suppressionCounts := (suppressionCounts ?am)(''ERROR'' \<mapsto> 0)\<rparr>)"
    using ShouldSendAlert_cooldown_contract [OF c, of "5 * Minute"] h [of "5 * Minute"]
    by (simp add: effective_cooldown_def count_of_def Minute_def)
  have b: "sentAlerts ?new ''ERROR'' = None \<and> count_of (suppressionCounts ?new) ''ERROR'' = 0 \<and>
      map fst (filter (\<lambda>c. snd c = ''ERROR'') ?calls) = 0 # [1 * Minute, 4 * Minute] \<and>
      (\<forall>t \<in> set [1 * Minute, 4 * Minute]. 0 \<le> t \<and> t - 0 < effective_cooldown ?new ''ERROR'') \<and>
      int (length [1 * Minute, 4 * Minute]) \<le> maxInt64 \<and>
      effective_cooldown ?new ''ERROR'' \<le> 5 * Minute - 0"
    by (simp add: NewAlertManager_def count_of_def effective_cooldown_def Minute_def maxInt64_def)
  have s3: "map snd (filter (\<lambda>r. fst r = ''ERROR'') (fst (alert_calls ?new ?calls))) =
          (True, 0) # map (\<lambda>j. (False, int j)) [1..<Suc (length [1 * Minute, 4 * Minute])] \<and>
        fst (ShouldSendAlert (snd (alert_calls ?new ?calls)) (5 * Minute) ''ERROR'') =
          (True, int (length [1 * Minute, 4 * Minute]))"
    using ShouldSendAlert_cooldown_contract
      [OF c', of 0 ?calls 0 "[1 * Minute, 4 * Minute]" "5 * Minute"] b
    by blast
  from s1 s2 s3 show ?thesis
    by (simp add: upt_conv_Cons)
qed

lemma ShouldSendAlert_sent_cases:
  assumes "sentAlerts (snd (ShouldSendAlert am t q)) p = Some l"
  shows "l = t \<or> sentAlerts am p = Some l"
  using assms by (auto simp: ShouldSendAlert_def Let_def split: if_splits)

lemma ShouldSendAlert_count_bounds:
  assumes "\<forall>p. 0 \<le> count_of (suppressionCounts am) p \<and> count_of (suppressionCounts am) p \<le> k"
    and "k < maxInt64"
  shows "0 \<le> count_of (suppressionCounts (snd (ShouldSendAlert am t q))) p \<and>
         count_of (suppressionCounts (snd (ShouldSendAlert am t q))) p \<le> k + 1"
proof -
  have b: "0 \<le> count_of (suppressionCounts am) p" "count_of (suppressionCounts am) p \<le> k"
    "0 \<le> count_of (suppressionCounts am) q" "count_of (suppressionCounts am) q \<le> k"
    using assms(1) by simp_all
  then have "is_int64 (count_of (suppressionCounts am) q + 1)"
    using assms(2) by (simp add: is_int64_def minInt64_def)
  then have w: "wrap64 (count_of (suppressionCounts am) q + 1) = count_of (suppressionCounts am) q + 1"
    by (rule wrap64_id)
  show ?thesis
  proof (cases "p = q")
    case True
    then show ?thesis using b w
      by (auto simp: ShouldSendAlert_def Let_def count_of_def)
  next
    case False
    then have "suppressionCounts (snd (ShouldSendAlert am t q)) p = suppressionCounts am p"
      by (simp add: ShouldSendAlert_other)
    then show ?thesis using b by (simp add: count_of_def)
  qed
qed

lemma alert_calls_invariant:
  assumes "\<forall>p. 0 \<le> count_of (suppressionCounts am) p \<and> count_of (suppressionCounts am) p \<le> k"
    and "k + int (length calls) \<le> maxInt64"
  shows "(\<forall>p l. sentAlerts (snd (alert_calls am calls)) p = Some l \<longrightarrow>
            l \<in> set (map fst calls) \<or> sentAlerts am p = Some l) \<and>
         (\<forall>p. 0 \<le> count_of (suppressionCounts (snd (alert_calls am calls))) p \<and>
              count_of (suppressionCounts (snd (alert_calls am calls))) p \<le> k + int (length calls))"
  using assms
proof (induction calls arbitrary: am k)
  case Nil
  then show ?case by simp
next
  case (Cons c cs)
  obtain t q where c: "c = (t, q)" by (cases c)
  let ?am1 = "snd (ShouldSendAlert am t q)"
  have run: "snd (alert_calls am (c # cs)) = snd (alert_calls ?am1 cs)"
    by (simp add: c split: prod.splits)
  have k: "k < maxInt64" using Cons.prems(2) by simp
  have b1: "\<forall>p. 0 \<le> count_of (suppressionCounts ?am1) p \<and> count_of (suppressionCounts ?am1) p \<le> k + 1"
    using ShouldSendAlert_count_bounds [OF Cons.prems(1) k] by blast
  have ih: "(\<forall>p l. sentAlerts (snd (alert_calls ?am1 cs)) p = Some l \<longrightarrow>
            l \<in> set (map fst cs) \<or> sentAlerts ?am1 p = Some l) \<and>
         (\<forall>p. 0 \<le> count_of (suppressionCounts (snd (alert_calls ?am1 cs))) p \<and>
              count_of (suppressionCounts (snd (alert_calls ?am1 cs))) p \<le> (k + 1) + int (length cs))"
    using Cons.prems(2) by (intro Cons.IH b1) simp
  show ?case
  proof (intro conjI allI impI)
    fix p l
    assume "sentAlerts (snd (alert_calls am (c # cs))) p = Some l"
    then have "l \<in> set (map fst cs) \<or> sentAlerts ?am1 p = Some l"
      using ih run by simp
    then show "l \<in> set (map fst (c # cs)) \<or> sentAlerts am p = Some l"
      using ShouldSendAlert_sent_cases [of am t q p l] c by auto
  next
    fix p
    show "0 \<le> count_of (suppressionCounts (snd (alert_calls am (c # cs)))) p"
      using ih run by simp
    have "count_of (suppressionCounts (snd (alert_calls ?am1 cs))) p \<le> (k + 1) + int (length cs)"
      using ih by blast
    then show "count_of (suppressionCounts (snd (alert_calls am (c # cs)))) p \<le> k + int (length (c # cs))"
      using run by simp
  qed
qed

text \<open>
  Claim C4. Take any sequence of calls with non-decreasing clock readings on a new alert
  manager, and the call for key \<open>Q\<close> at time \<open>T\<close> that follows it. For every key \<open>P\<close>: when
  the call is for \<open>P\<close> and sends, it stores the count 0; when it is for \<open>P\<close> and does not
  send, the count of \<open>P\<close> grows by exactly 1 and is positive afterwards, so only a sending
  call sets it to 0; a call for another key leaves the count and the time of the last
  send of \<open>P\<close> alone; a recorded time of the last send never decreases; and
  \<open>GetSuppressionCount\<close> returns the count and the manager unchanged. The number of
  earlier calls is taken to be below the largest \<open>int\<close>.
\<close>

theorem alert_state_invariants:
  assumes "sorted (map fst (pre @ [(T, Q)]))"
    and "int (length pre) < maxInt64"
    and "am = snd (alert_calls (NewAlertManager d pc) pre)"
    and "ShouldSendAlert am T Q = ((send, n), am')"
  shows
    "(Q = P \<and> send \<longrightarrow> suppressionCounts am' P = Some 0) \<and>
     (Q = P \<and> \<not> send \<longrightarrow>
        count_of (suppressionCounts am') P = count_of (suppressionCounts am) P + 1 \<and>
        0 < count_of (suppressionCounts am') P) \<and>
     (Q \<noteq> P \<longrightarrow>
        suppressionCounts am' P = suppressionCounts am P \<and> sentAlerts am' P = sentAlerts am P) \<and>
     (\<forall>l. sentAlerts am P = Some l \<longrightarrow> (\<exists>l'. sentAlerts am' P = Some l' \<and> l \<le> l')) \<and>
     GetSuppressionCount am P = (count_of (suppressionCounts am) P, am)"
proof -
  have init: "\<forall>p. 0 \<le> count_of (suppressionCounts (NewAlertManager d pc)) p \<and>
                  count_of (suppressionCounts (NewAlertManager d pc)) p \<le> 0"
    by (simp add: NewAlertManager_def count_of_def)
  have inv: "(\<forall>p l. sentAlerts am p = Some l \<longrightarrow>
            l \<in> set (map fst pre) \<or> sentAlerts (NewAlertManager d pc) p = Some l) \<and>
         (\<forall>p. 0 \<le> count_of (suppressionCounts am) p \<and>
              count_of (suppressionCounts am) p \<le> 0 + int (length pre))"
    unfolding assms(3) using assms(2) by (intro alert_calls_invariant init) simp
  have times: "l \<le> T" if "sentAlerts am P = Some l" for l
  proof -
    have "l \<in> set (map fst pre)"
      using inv that by (auto simp: NewAlertManager_def)
    then show ?thesis using assms(1) by (auto simp: sorted_append)
  qed
  have cnt: "0 \<le> count_of (suppressionCounts am) P" "count_of (suppressionCounts am) P < maxInt64"
    using inv assms(2) by (auto intro: le_less_trans)
  then have "is_int64 (count_of (suppressionCounts am) P + 1)"
    by (simp add: is_int64_def minInt64_def)
  then have w: "wrap64 (count_of (suppressionCounts am) P + 1) = count_of (suppressionCounts am) P + 1"
    by (rule wrap64_id)
  have am': "am' = snd (ShouldSendAlert am T Q)" and send: "send = fst (fst (ShouldSendAlert am T Q))"
    using assms(4) by simp_all
  have 1: "Q = P \<and> send \<longrightarrow> suppressionCounts am' P = Some 0"
    unfolding am' send by (auto simp: ShouldSendAlert_def Let_def split: if_splits)
  have 2: "Q = P \<and> \<not> send \<longrightarrow>
        count_of (suppressionCounts am') P = count_of (suppressionCounts am) P + 1 \<and>
        0 < count_of (suppressionCounts am') P"
    unfolding am' send using w cnt(1)
    by (auto simp: ShouldSendAlert_def Let_def count_of_def split: if_splits)
  have 3: "Q \<noteq> P \<longrightarrow>
        suppressionCounts am' P = suppressionCounts am P \<and> sentAlerts am' P = sentAlerts am P"
    unfolding am' by (simp add: ShouldSendAlert_other)
  have 4: "\<forall>l. sentAlerts am P = Some l \<longrightarrow> (\<exists>l'. sentAlerts am' P = Some l' \<and> l \<le> l')"
    unfolding am' using times
    by (auto simp: ShouldSendAlert_def Let_def split: if_splits)
  have 5: "GetSuppressionCount am P = (count_of (suppressionCounts am) P, am)"
    by (simp add: GetSuppressionCount_def)
  from 1 2 3 4 5 show ?thesis by blast
qed

theorem alert_state_invariants_witness:
  "count_of (suppressionCounts (snd (ShouldSendAlert
       (snd (alert_calls (NewAlertManager (10 * Minute) [''ERROR'' \<mapsto> 5 * Minute])
          [(0, ''ERROR''), (1 * Minute, ''ERROR'')]))
       (2 * Minute) ''ERROR''))) ''ERROR'' =
     count_of (suppressionCounts
       (snd (alert_calls (NewAlertManager (10 * Minute) [''ERROR'' \<mapsto> 5 * Minute])
          [(0, ''ERROR''), (1 * Minute, ''ERROR'')]))) ''ERROR'' + 1
   \<and> snd (GetSuppressionCount
       (snd (alert_calls (NewAlertManager (10 * Minute) [''ERROR'' \<mapsto> 5 * Minute])
          [(0, ''ERROR''), (1 * Minute, ''ERROR'')])) ''ERROR'') =
       snd (alert_calls (NewAlertManager (10 * Minute) [''ERROR'' \<mapsto> 5 * Minute])
          [(0, ''ERROR''), (1 * Minute, ''ERROR'')])"
proof -
  let ?new = "NewAlertManager (10 * Minute) [''ERROR'' \<mapsto> 5 * Minute]"
  let ?pre = "[(0, ''ERROR''), (1 * Minute, ''ERROR'')]"
  let ?am = "snd (alert_calls ?new ?pre)"
  let ?r = "ShouldSendAlert ?am (2 * Minute) ''ERROR''"
  have s: "sorted (map fst (?pre @ [(2 * Minute, ''ERROR'')]))"
    by (simp add: Minute_def)
  have l: "int (length ?pre) < maxInt64"
    by (simp add: maxInt64_def)
  have r: "?r = ((fst (fst ?r), snd (fst ?r)), snd ?r)"
    by simp
  have f: "\<not> fst (fst ?r)"
    by (simp add: NewAlertManager_def Minute_def count_of_def ShouldSendAlert_def
      Let_def Sub_def wrap64_def maxInt64_def minInt64_def)
  from alert_state_invariants [OF s l refl r, of "''ERROR''"] f
  show ?thesis
    by (simp add: GetSuppressionCount_def)
qed

section \<open>Properties of the cooldown table and the classifier\<close>

lemma main_patternCooldowns_other:
  "p \<notin> Pattern ` set rules \<Longrightarrow> main_patternCooldowns rules m p = m p"
  by (induction rules arbitrary: m) auto

lemma main_patternCooldowns_last:
  assumes "j < length rules"
    and "\<forall>k. j < k \<and> k < length rules \<longrightarrow> Pattern (rules ! k) \<noteq> Pattern (rules ! j)"
  shows "main_patternCooldowns rules m (Pattern (rules ! j)) = Some (rule_cooldown (rules ! j))"
  using assms
proof (induction rules arbitrary: m j)
  case Nil
  then show ?case by simp
next
  case (Cons x xs)
  show ?case
  proof (cases j)
    case 0
    have "Pattern x \<notin> Pattern ` set xs"
    proof
      assume "Pattern x \<in> Pattern ` set xs"
      then obtain k where "k < length xs" "Pattern (xs ! k) = Pattern x"
        by (auto simp: in_set_conv_nth)
      then show False using Cons.prems(2) 0 by (auto dest: spec [where x = "Suc k"])
    qed
    then show ?thesis using 0 by (simp add: main_patternCooldowns_other)
  next
    case (Suc j')
    have "main_patternCooldowns xs (m(Pattern x \<mapsto> rule_cooldown x)) (Pattern (xs ! j')) =
          Some (rule_cooldown (xs ! j'))"
    proof (rule Cons.IH)
      show "j' < length xs" using Cons.prems(1) Suc by simp
      show "\<forall>k. j' < k \<and> k < length xs \<longrightarrow> Pattern (xs ! k) \<noteq> Pattern (xs ! j')"
      proof (intro allI impI)
        fix k assume "j' < k \<and> k < length xs"
        then show "Pattern (xs ! k) \<noteq> Pattern (xs ! j')"
          using Cons.prems(2) Suc by (auto dest: spec [where x = "Suc k"])
      qed
    qed
    then show ?thesis using Suc by simp
  qed
qed

lemma cooling_never_sends:
  assumes "sentAlerts am P = Some t0"
    and "is_int64 (effective_cooldown am P)"
    and "\<forall>c \<in> set calls. snd c = P \<longrightarrow> t0 \<le> fst c \<and> fst c - t0 < effective_cooldown am P"
  shows "(\<forall>r \<in> set (fst (alert_calls am calls)). fst r = P \<longrightarrow> \<not> fst (snd r)) \<and>
         sentAlerts (snd (alert_calls am calls)) P = Some t0 \<and>
         effective_cooldown (snd (alert_calls am calls)) P = effective_cooldown am P"
  using assms
proof (induction calls arbitrary: am)
  case Nil
  then show ?case by simp
next
  case (Cons c cs)
  obtain t q where c: "c = (t, q)" by (cases c)
  let ?am1 = "snd (ShouldSendAlert am t q)"
  have cd: "effective_cooldown ?am1 P = effective_cooldown am P"
    by (rule effective_cooldown_step)
  have run: "alert_calls am (c # cs) =
      ((q, fst (ShouldSendAlert am t q)) # fst (alert_calls ?am1 cs), snd (alert_calls ?am1 cs))"
    by (simp add: c split: prod.splits)
  have s1: "sentAlerts ?am1 P = Some t0 \<and> (q = P \<longrightarrow> \<not> fst (fst (ShouldSendAlert am t q)))"
  proof (cases "q = P")
    case False
    then show ?thesis using Cons.prems(1) by (simp add: ShouldSendAlert_other)
  next
    case True
    have tt: "t0 \<le> t" "t - t0 < effective_cooldown am P"
      using Cons.prems(3) True c by simp_all
    then have "minInt64 \<le> t - t0" by (simp add: minInt64_def)
    with Cons.prems(2) have "Sub t t0 < effective_cooldown am P \<longleftrightarrow> t - t0 < effective_cooldown am P"
      by (rule Sub_less_iff)
    then show ?thesis using True tt Cons.prems(1)
      by (simp add: ShouldSendAlert_def Let_def effective_cooldown_def)
  qed
  have ih: "(\<forall>r \<in> set (fst (alert_calls ?am1 cs)). fst r = P \<longrightarrow> \<not> fst (snd r)) \<and>
         sentAlerts (snd (alert_calls ?am1 cs)) P = Some t0 \<and>
         effective_cooldown (snd (alert_calls ?am1 cs)) P = effective_cooldown ?am1 P"
    using Cons.prems(2,3) s1 cd by (intro Cons.IH) simp_all
  show ?case using ih s1 cd unfolding run by simp
qed

text \<open>
  Claim C3, as amended. Let the last rule with the pattern text \<open>P\<close> have
  \<open>timeoutMinutes = 0\<close>. Then the effective cooldown of \<open>P\<close> is 100 years of 365 days, and
  once an alert for \<open>P\<close> was sent at \<open>t0\<close>, no call for \<open>P\<close> at a time from \<open>t0\<close> to less than
  100 years after \<open>t0\<close> returns true, whatever calls for other keys come in between; a call
  for \<open>P\<close> at 100 years after \<open>t0\<close> or later returns true again.
\<close>

theorem zero_timeout_cooldown:
  assumes "j < length rules" and "TimeoutMinutes (rules ! j) = 0"
    and "\<forall>k. j < k \<and> k < length rules \<longrightarrow> Pattern (rules ! k) \<noteq> Pattern (rules ! j)"
    and "patternCooldowns am = main_patternCooldowns rules Map.empty"
    and "sentAlerts am (Pattern (rules ! j)) = Some t0"
    and "\<forall>c \<in> set calls. snd c = Pattern (rules ! j) \<longrightarrow>
           t0 \<le> fst c \<and> fst c - t0 < 24 * Hour * 365 * 100"
  shows "effective_cooldown am (Pattern (rules ! j)) = 24 * Hour * 365 * 100 \<and>
         (\<forall>r \<in> set (fst (alert_calls am calls)).
            fst r = Pattern (rules ! j) \<longrightarrow> \<not> fst (snd r)) \<and>
         (\<forall>T. 24 * Hour * 365 * 100 \<le> T - t0 \<longrightarrow>
            fst (fst (ShouldSendAlert (snd (alert_calls am calls)) T (Pattern (rules ! j)))))"
proof -
  let ?P = "Pattern (rules ! j)"
  let ?C = "24 * Hour * 365 * 100"
  have "patternCooldowns am ?P = Some (rule_cooldown (rules ! j))"
    unfolding assms(4) using assms(1,3) by (rule main_patternCooldowns_last)
  then have cd: "effective_cooldown am ?P = ?C"
    using assms(2) by (simp add: effective_cooldown_def rule_cooldown_def)
  have ok: "is_int64 (effective_cooldown am ?P)"
    unfolding cd by (simp add: is_int64_def Hour_def Minute_def minInt64_def maxInt64_def)
  have run: "(\<forall>r \<in> set (fst (alert_calls am calls)). fst r = ?P \<longrightarrow> \<not> fst (snd r)) \<and>
         sentAlerts (snd (alert_calls am calls)) ?P = Some t0 \<and>
         effective_cooldown (snd (alert_calls am calls)) ?P = effective_cooldown am ?P"
    using assms(5) ok assms(6) unfolding cd [symmetric] by (rule cooling_never_sends)
  have again: "fst (fst (ShouldSendAlert (snd (alert_calls am calls)) T ?P))"
    if "?C \<le> T - t0" for T
  proof -
    let ?am = "snd (alert_calls am calls)"
    have "ShouldSendAlert ?am T ?P =
      ((True, count_of (suppressionCounts ?am) ?P),
            ?am\<lparr>sentAlerts := (sentAlerts ?am)(?P \<mapsto> T),
               suppressionCounts := (suppressionCounts ?am)(?P \<mapsto> 0)\<rparr>)"
      using run ok that cd by (intro ShouldSendAlert_elapsed [where lastSent = t0]) simp_all
    then show ?thesis by simp
  qed
  from cd run again show ?thesis by blast
qed

text \<open>
  Claim C3 as stated fails: with the single rule \<open>ERROR\<close> of \<open>timeoutMinutes = 0\<close>, the
  cooldown is 3153600000000000000 nanoseconds, the first call sends, and a call at that
  many nanoseconds later sends again.
\<close>

theorem zero_timeout_fires_again:
  "rule_cooldown \<lparr>Pattern = ''ERROR'', TimeoutMinutes = 0\<rparr> = 3153600000000000000 \<and>
   fst (ShouldSendAlert
          (NewAlertManager (10 * Minute)
             (main_patternCooldowns [\<lparr>Pattern = ''ERROR'', TimeoutMinutes = 0\<rparr>] Map.empty))
          0 ''ERROR'') = (True, 0) \<and>
   fst (ShouldSendAlert
          (snd (ShouldSendAlert
             (NewAlertManager (10 * Minute)
                (main_patternCooldowns [\<lparr>Pattern = ''ERROR'', TimeoutMinutes = 0\<rparr>] Map.empty))
             0 ''ERROR''))
          3153600000000000000 ''ERROR'') = (True, 0)"
  by (simp add: rule_cooldown_def NewAlertManager_def ShouldSendAlert_def Let_def Sub_def
      count_of_def Hour_def Minute_def maxInt64_def minInt64_def)

theorem zero_timeout_cooldown_witness:
  "effective_cooldown
     (snd (ShouldSendAlert
        (NewAlertManager (10 * Minute)
           (main_patternCooldowns
              [\<lparr>Pattern = ''ERROR'', TimeoutMinutes = 0\<rparr>, \<lparr>Pattern = ''WARN'', TimeoutMinutes = 1\<rparr>]
              Map.empty))
        0 ''ERROR'')) ''ERROR'' = 3153600000000000000
   \<and> map (\<lambda>r. fst (snd r))
       (fst (alert_calls
          (snd (ShouldSendAlert
             (NewAlertManager (10 * Minute)
                (main_patternCooldowns
                   [\<lparr>Pattern = ''ERROR'', TimeoutMinutes = 0\<rparr>, \<lparr>Pattern = ''WARN'', TimeoutMinutes = 1\<rparr>]
                   Map.empty))
             0 ''ERROR''))
          [(1 * Hour, ''ERROR''), (24 * Hour * 365 * 99, ''ERROR'')])) = [False, False]"
proof -
  let ?rules = "[\<lparr>Pattern = ''ERROR'', TimeoutMinutes = 0\<rparr>, \<lparr>Pattern = ''WARN'', TimeoutMinutes = 1\<rparr>]"
  let ?am = "snd (ShouldSendAlert
        (NewAlertManager (10 * Minute) (main_patternCooldowns ?rules Map.empty)) 0 ''ERROR'')"
  let ?calls = "[(1 * Hour, ''ERROR''), (24 * Hour * 365 * 99, ''ERROR'')]"
  have 1: "(0::nat) < length ?rules" by simp
  have 2: "TimeoutMinutes (?rules ! 0) = 0" by simp
  have 3: "\<forall>k. 0 < k \<and> k < length ?rules \<longrightarrow> Pattern (?rules ! k) \<noteq> Pattern (?rules ! 0)"
    by (auto simp: less_Suc_eq)
  have 4: "patternCooldowns ?am = main_patternCooldowns ?rules Map.empty"
    by (simp add: ShouldSendAlert_config NewAlertManager_def)
  have 5: "sentAlerts ?am (Pattern (?rules ! 0)) = Some 0"
    by (simp add: ShouldSendAlert_def Let_def NewAlertManager_def)
  have 6: "\<forall>c \<in> set ?calls. snd c = Pattern (?rules ! 0) \<longrightarrow>
           0 \<le> fst c \<and> fst c - 0 < 24 * Hour * 365 * 100"
    by (simp add: Hour_def Minute_def)
  from zero_timeout_cooldown [OF 1 2 3 4 5 6]
  show ?thesis
    by (simp add: Hour_def Minute_def rule_cooldown_def NewAlertManager_def ShouldSendAlert_def
        Let_def Sub_def count_of_def effective_cooldown_def wrap64_def maxInt64_def minInt64_def)
qed

lemma searchLog_no_match:
  "\<forall>p \<in> set ps. \<not> ms p line \<Longrightarrow> searchLog ms line ps = (False, [])"
  by (induction ps) simp_all

lemma searchLog_first:
  assumes "i < length ps" and "ms (ps ! i) line" and "\<forall>k<i. \<not> ms (ps ! k) line"
  shows "searchLog ms line ps = (True, ps ! i)"
  using assms
proof (induction ps arbitrary: i)
  case Nil
  then show ?case by simp
next
  case (Cons p ps)
  show ?case
  proof (cases i)
    case 0
    then show ?thesis using Cons.prems(2) by simp
  next
    case (Suc i')
    have "\<not> ms p line" using Cons.prems(3) Suc by (auto dest: spec [where x = 0])
    moreover have "searchLog ms line ps = (True, ps ! i')"
    proof (rule Cons.IH)
      show "i' < length ps" using Cons.prems(1) Suc by simp
      show "ms (ps ! i') line" using Cons.prems(2) Suc by simp
      show "\<forall>k<i'. \<not> ms (ps ! k) line"
        using Cons.prems(3) Suc by (auto dest: spec [where x = "Suc k" for k])
    qed
    ultimately show ?thesis using Suc by simp
  qed
qed

lemma searchLog_found:
  "fst (searchLog ms line ps) \<longleftrightarrow> (\<exists>p \<in> set ps. ms p line)"
  by (induction ps) simp_all

text \<open>
  Claim C7. \<open>searchLog\<close> reports a match exactly when some pattern of the list matches the
  line, and returns \<open>(false, "")\<close> when none does; it returns the text of the first
  pattern, in list order, that matches; in particular, when exactly two patterns match,
  it returns the one listed earlier. Whether a pattern matches a line is the library's
  \<open>MatchString\<close>, a search anywhere in the line.
\<close>

theorem searchLog_first_match:
  "(fst (searchLog ms line ps) \<longleftrightarrow> (\<exists>p \<in> set ps. ms p line)) \<and>
   ((\<forall>p \<in> set ps. \<not> ms p line) \<longrightarrow> searchLog ms line ps = (False, [])) \<and>
   (i < length ps \<and> ms (ps ! i) line \<and> (\<forall>k<i. \<not> ms (ps ! k) line) \<longrightarrow>
      searchLog ms line ps = (True, ps ! i)) \<and>
   (i < j \<and> j < length ps \<and> ms (ps ! i) line \<and> ms (ps ! j) line \<and>
    (\<forall>k < length ps. ms (ps ! k) line \<longrightarrow> k = i \<or> k = j) \<longrightarrow>
      searchLog ms line ps = (True, ps ! i))"
proof (intro conjI impI)
  show "fst (searchLog ms line ps) \<longleftrightarrow> (\<exists>p \<in> set ps. ms p line)"
    by (rule searchLog_found)
next
  assume "\<forall>p \<in> set ps. \<not> ms p line"
  then show "searchLog ms line ps = (False, [])" by (rule searchLog_no_match)
next
  assume "i < length ps \<and> ms (ps ! i) line \<and> (\<forall>k<i. \<not> ms (ps ! k) line)"
  then show "searchLog ms line ps = (True, ps ! i)" by (intro searchLog_first) simp_all
next
  assume h: "i < j \<and> j < length ps \<and> ms (ps ! i) line \<and> ms (ps ! j) line \<and>
    (\<forall>k < length ps. ms (ps ! k) line \<longrightarrow> k = i \<or> k = j)"
  have "\<forall>k<i. \<not> ms (ps ! k) line"
  proof (intro allI impI notI)
    fix k assume k: "k < i" and m: "ms (ps ! k) line"
    from k h have "k < length ps" by simp
    with h m have "k = i \<or> k = j" by blast
    with k h show False by simp
  qed
  with h show "searchLog ms line ps = (True, ps ! i)" by (intro searchLog_first) simp_all
qed

theorem searchLog_first_match_witness:
  "searchLog (\<lambda>p l. Contains l p) ''an ERROR: disk full'' [''WARN'', ''ERROR'', ''disk''] =
     (True, ''ERROR'') \<and>
   searchLog (\<lambda>p l. Contains l p) ''all is well'' [''WARN'', ''ERROR'', ''disk''] = (False, [])"
proof -
  let ?ms = "\<lambda>p l. Contains l p"
  let ?ps = "[''WARN'', ''ERROR'', ''disk'']"
  have a: "(1::nat) < 2 \<and> 2 < length ?ps \<and> ?ms (?ps ! 1) ''an ERROR: disk full'' \<and>
        ?ms (?ps ! 2) ''an ERROR: disk full'' \<and>
        (\<forall>k < length ?ps. ?ms (?ps ! k) ''an ERROR: disk full'' \<longrightarrow> k = 1 \<or> k = 2)"
    by (simp add: less_Suc_eq numeral_3_eq_3 all_conj_distrib)
  have b: "\<forall>p \<in> set ?ps. \<not> ?ms p ''all is well''"
    by simp
  from searchLog_first_match [of ?ms "''an ERROR: disk full''" ?ps 1 2] a
  have "searchLog ?ms ''an ERROR: disk full'' ?ps = (True, ?ps ! 1)" by blast
  moreover from searchLog_first_match [of ?ms "''all is well''" ?ps 1 2] b
  have "searchLog ?ms ''all is well'' ?ps = (False, [])" by blast
  ultimately show ?thesis by simp
qed

text \<open>
  Claim C10. When rules \<open>i < j\<close> have the same pattern text and no later rule has it, the
  effective cooldown of that text is the one of rule \<open>j\<close>; a line that rule \<open>i\<close> is the first
  to match is reported under the text, which is rule \<open>j\<close>'s as well; and a call of
  \<open>ShouldSendAlert\<close> for the text of either rule is the same call, on the same entries
  of \<open>sentAlerts\<close> and \<open>suppressionCounts\<close>.
\<close>

theorem duplicate_patterns_share_state:
  assumes "i < j" and "j < length rules"
    and "Pattern (rules ! i) = Pattern (rules ! j)"
    and "\<forall>k. j < k \<and> k < length rules \<longrightarrow> Pattern (rules ! k) \<noteq> Pattern (rules ! j)"
  shows
    "effective_cooldown (NewAlertManager d (main_patternCooldowns rules Map.empty))
        (Pattern (rules ! i)) = rule_cooldown (rules ! j) \<and>
     (ms (Pattern (rules ! i)) line \<and> (\<forall>k<i. \<not> ms (Pattern (rules ! k)) line) \<longrightarrow>
        searchLog ms line (map Pattern rules) = (True, Pattern (rules ! j))) \<and>
     ShouldSendAlert am T (Pattern (rules ! i)) = ShouldSendAlert am T (Pattern (rules ! j)) \<and>
     sentAlerts am (Pattern (rules ! i)) = sentAlerts am (Pattern (rules ! j)) \<and>
     suppressionCounts am (Pattern (rules ! i)) = suppressionCounts am (Pattern (rules ! j))"
proof -
  have "main_patternCooldowns rules Map.empty (Pattern (rules ! j)) =
        Some (rule_cooldown (rules ! j))"
    using assms(2,4) by (rule main_patternCooldowns_last)
  then have 1: "effective_cooldown (NewAlertManager d (main_patternCooldowns rules Map.empty))
        (Pattern (rules ! i)) = rule_cooldown (rules ! j)"
    using assms(3) by (simp add: effective_cooldown_def NewAlertManager_def)
  have 2: "searchLog ms line (map Pattern rules) = (True, Pattern (rules ! j))"
    if "ms (Pattern (rules ! i)) line \<and> (\<forall>k<i. \<not> ms (Pattern (rules ! k)) line)"
  proof -
    have i: "i < length (map Pattern rules)" using assms(1,2) by simp
    have "searchLog ms line (map Pattern rules) = (True, map Pattern rules ! i)"
      using i that assms(1,2) by (intro searchLog_first) simp_all
    then show ?thesis using assms(1,2,3) by simp
  qed
  from 1 2 assms(3) show ?thesis by simp
qed

theorem duplicate_patterns_share_state_witness:
  "effective_cooldown
     (NewAlertManager (10 * Minute)
        (main_patternCooldowns
           [\<lparr>Pattern = ''ERROR'', TimeoutMinutes = 5\<rparr>, \<lparr>Pattern = ''WARN'', TimeoutMinutes = 1\<rparr>,
            \<lparr>Pattern = ''ERROR'', TimeoutMinutes = 7\<rparr>] Map.empty)) ''ERROR'' = 7 * Minute
   \<and> searchLog (\<lambda>p l. Contains l p) ''ERROR disk full''
        (map Pattern
           [\<lparr>Pattern = ''ERROR'', TimeoutMinutes = 5\<rparr>, \<lparr>Pattern = ''WARN'', TimeoutMinutes = 1\<rparr>,
            \<lparr>Pattern = ''ERROR'', TimeoutMinutes = 7\<rparr>]) = (True, ''ERROR'')"
proof -
  let ?rules = "[\<lparr>Pattern = ''ERROR'', TimeoutMinutes = 5\<rparr>, \<lparr>Pattern = ''WARN'', TimeoutMinutes = 1\<rparr>,
            \<lparr>Pattern = ''ERROR'', TimeoutMinutes = 7\<rparr>]"
  have 1: "(0::nat) < 2" by simp
  have 2: "2 < length ?rules" by simp
  have 3: "Pattern (?rules ! 0) = Pattern (?rules ! 2)" by simp
  have 4: "\<forall>k. 2 < k \<and> k < length ?rules \<longrightarrow> Pattern (?rules ! k) \<noteq> Pattern (?rules ! 2)"
    by auto
  from duplicate_patterns_share_state [OF 1 2 3 4, of "10 * Minute" "\<lambda>p l. Contains l p"
      "''ERROR disk full''"]
  show ?thesis
    by (simp add: rule_cooldown_def wrap64_def Minute_def)
qed

section \<open>Properties of the port negotiator\<close>

lemma findAvailablePort_least:
  assumes "listen q" and "p \<le> q" and "q \<le> maxInt64" and "minInt64 \<le> p"
  shows "\<exists>r. findAvailablePort listen p = Some r \<and> p \<le> r \<and> r \<le> q \<and> listen r \<and>
             (\<forall>k. p \<le> k \<and> k < r \<longrightarrow> \<not> listen k)"
  using assms
proof (induction "nat (q - p)" arbitrary: p)
  case 0
  then have "p = q" by simp
  with "0.prems"(1) show ?case by (auto simp: findAvailablePort.simps)
next
  case (Suc n)
  show ?case
  proof (cases "listen p")
    case True
    then show ?thesis using Suc.prems(2) by (auto simp: findAvailablePort.simps)
  next
    case False
    have lt: "p < q" using Suc.hyps(2) by simp
    have "is_int64 (p + 1)"
      using lt Suc.prems(3,4) by (simp add: is_int64_def minInt64_def)
    then have w: "wrap64 (p + 1) = p + 1" by (rule wrap64_id)
    have "\<exists>r. findAvailablePort listen (p + 1) = Some r \<and> p + 1 \<le> r \<and> r \<le> q \<and> listen r \<and>
             (\<forall>k. p + 1 \<le> k \<and> k < r \<longrightarrow> \<not> listen k)"
    proof (rule Suc.hyps(1))
      show "n = nat (q - (p + 1))" using Suc.hyps(2) by simp
      show "listen q" by (rule Suc.prems(1))
      show "p + 1 \<le> q" using lt by simp
      show "q \<le> maxInt64" by (rule Suc.prems(3))
      show "minInt64 \<le> p + 1" using Suc.prems(4) by simp
    qed
    then obtain r where r: "findAvailablePort listen (p + 1) = Some r" "p + 1 \<le> r" "r \<le> q"
      "listen r" "\<forall>k. p + 1 \<le> k \<and> k < r \<longrightarrow> \<not> listen k"
      by blast
    have "findAvailablePort listen p = Some r"
      using False w r(1) by (subst findAvailablePort.simps) simp
    moreover have "\<forall>k. p \<le> k \<and> k < r \<longrightarrow> \<not> listen k"
    proof (intro allI impI)
      fix k assume k: "p \<le> k \<and> k < r"
      show "\<not> listen k"
      proof (cases "k = p")
        case True
        then show ?thesis using False by simp
      next
        case False
        then have "p + 1 \<le> k \<and> k < r" using k by simp
        then show ?thesis using r(5) by blast
      qed
    qed
    ultimately show ?thesis using r by auto
  qed
qed

lemma Atoi_is_int64: "Atoi s = Inr p \<Longrightarrow> is_int64 p"
  by (auto simp: Atoi_def Let_def split: list.splits if_splits option.splits prod.splits)

lemma negotiate_ports_all:
  assumes "list_all2 (\<lambda>s r. \<exists>p. Atoi (TrimSpace s) = Inr p \<and> findAvailablePort listen p = Some r) strs rs"
  shows "negotiate_ports listen strs acc = Some (Inr (acc @ map Itoa rs))"
  using assms
proof (induction strs rs arbitrary: acc rule: list_all2_induct)
  case Nil
  then show ?case by simp
next
  case (Cons s r strs rs)
  then show ?case by auto
qed

text \<open>The port \<open>r\<close> is the least bindable port from \<open>p\<close> on.\<close>
lemma negotiate_ports_least:
  assumes "list_all2 (\<lambda>s r. \<exists>p. Atoi (TrimSpace s) = Inr p \<and> p \<le> r \<and> r \<le> maxInt64 \<and> listen r \<and>
               (\<forall>k. p \<le> k \<and> k < r \<longrightarrow> \<not> listen k)) strs rs"
  shows "negotiate_ports listen strs acc = Some (Inr (acc @ map Itoa rs))"
proof (rule negotiate_ports_all)
  show "list_all2 (\<lambda>s r. \<exists>p. Atoi (TrimSpace s) = Inr p \<and> findAvailablePort listen p = Some r) strs rs"
    using assms
  proof (rule list_all2_mono)
    fix s r
    assume "\<exists>p. Atoi (TrimSpace s) = Inr p \<and> p \<le> r \<and> r \<le> maxInt64 \<and> listen r \<and>
               (\<forall>k. p \<le> k \<and> k < r \<longrightarrow> \<not> listen k)"
    then obtain p where p: "Atoi (TrimSpace s) = Inr p" "p \<le> r" "r \<le> maxInt64" "listen r"
      "\<forall>k. p \<le> k \<and> k < r \<longrightarrow> \<not> listen k" by blast
    have "minInt64 \<le> p" using Atoi_is_int64 [OF p(1)] by (simp add: is_int64_def)
    from findAvailablePort_least [of listen r p, OF p(4) p(2) p(3) this]
    obtain r' where r': "findAvailablePort listen p = Some r'" "p \<le> r'" "r' \<le> r" "listen r'"
      by blast
    have "r' = r"
    proof (rule ccontr)
      assume "r' \<noteq> r"
      then have "p \<le> r' \<and> r' < r" using r' by simp
      then show False using p(5) r'(4) by blast
    qed
    then show "\<exists>p. Atoi (TrimSpace s) = Inr p \<and> findAvailablePort listen p = Some r"
      using p(1) r'(1) by blast
  qed
qed

lemma update_ports_frame:
  assumes "update_ports listen kvs config = Some (Inr config')"
    and "key \<notin> fst ` set kvs"
  shows "config' key = config key"
  using assms
proof (induction kvs arbitrary: config)
  case Nil
  then show ?case by simp
next
  case (Cons kv kvs)
  obtain k pl where kv: "kv = (k, pl)" by (cases kv)
  from Cons.prems(1) obtain s where s: "rewrite_portList listen pl = Some (Inr s)"
    and rest: "update_ports listen kvs (config(k \<mapsto> YString s)) = Some (Inr config')"
    by (auto simp: kv split: option.splits sum.splits)
  have "key \<notin> fst ` set kvs" using Cons.prems(2) by simp
  with rest have "config' key = (config(k \<mapsto> YString s)) key"
    by (rule Cons.IH)
  then show ?case using Cons.prems(2) kv by simp
qed

lemma update_ports_entries:
  assumes "update_ports listen kvs config = Some (Inr config')"
    and "distinct (map fst kvs)"
    and "(key, portList) \<in> set kvs"
  shows "\<exists>s. rewrite_portList listen portList = Some (Inr s) \<and> config' key = Some (YString s)"
  using assms
proof (induction kvs arbitrary: config)
  case Nil
  then show ?case by simp
next
  case (Cons kv kvs)
  obtain k pl where kv: "kv = (k, pl)" by (cases kv)
  from Cons.prems(1) obtain s where s: "rewrite_portList listen pl = Some (Inr s)"
    and rest: "update_ports listen kvs (config(k \<mapsto> YString s)) = Some (Inr config')"
    by (auto simp: kv split: option.splits sum.splits)
  show ?case
  proof (cases "(key, portList) = (k, pl)")
    case True
    have "k \<notin> fst ` set kvs" using Cons.prems(2) kv by simp
    with rest have "config' k = (config(k \<mapsto> YString s)) k"
      by (rule update_ports_frame)
    then show ?thesis using True s by simp
  next
    case False
    then have "(key, portList) \<in> set kvs" using Cons.prems(3) kv by auto
    moreover have "distinct (map fst kvs)" using Cons.prems(2) by simp
    ultimately show ?thesis using rest by (intro Cons.IH)
  qed
qed

lemma update_ports_total:
  assumes "\<forall>(key, portList) \<in> set kvs. \<exists>s. rewrite_portList listen portList = Some (Inr s)"
  shows "\<exists>config'. update_ports listen kvs config = Some (Inr config')"
  using assms
proof (induction kvs arbitrary: config)
  case Nil
  then show ?case by simp
next
  case (Cons kv kvs)
  obtain k pl where kv: "kv = (k, pl)" by (cases kv)
  from Cons.prems obtain s where s: "rewrite_portList listen pl = Some (Inr s)"
    by (auto simp: kv)
  have "\<exists>config'. update_ports listen kvs (config(k \<mapsto> YString s)) = Some (Inr config')"
    using Cons.prems by (intro Cons.IH) simp
  then show ?case using s kv by simp
qed

text \<open>
  Claim C5. When some port \<open>q \<ge> p\<close> can be bound, \<open>findAvailablePort\<close> returns, and what it
  returns is the smallest port from \<open>p\<close> on that can be bound; when \<open>p\<close> itself cannot, the
  result is greater than \<open>p\<close>. The ports listed under one key are negotiated one by one in
  list order and joined in that order: when \<open>rs\<close> lists, for each piece of the port list,
  the smallest bindable port from the piece's number on, the new value is the numbers of
  \<open>rs\<close> joined by a comma and a space. Each key of the port table gets the rewriting of its
  own port list, whatever the other keys hold, and every other key keeps its value; the
  loop over the keys succeeds when the rewriting of every port list does.
\<close>

theorem port_negotiation:
  "(is_int64 p \<and> p \<le> q \<and> q \<le> maxInt64 \<and> listen q \<longrightarrow>
      (\<exists>r. findAvailablePort listen p = Some r \<and> p \<le> r \<and> listen r \<and>
           (\<forall>k. p \<le> k \<and> k < r \<longrightarrow> \<not> listen k) \<and> (\<not> listen p \<longrightarrow> p < r))) \<and>
   (list_all2 (\<lambda>s r. \<exists>p. Atoi (TrimSpace s) = Inr p \<and> p \<le> r \<and> r \<le> maxInt64 \<and> listen r \<and>
                      (\<forall>k. p \<le> k \<and> k < r \<longrightarrow> \<not> listen k))
      (Split portList CHR '','') rs \<longrightarrow>
      rewrite_portList listen portList = Some (Inr (Join (map Itoa rs) '', ''))) \<and>
   (update_ports listen kvs config = Some (Inr config') \<and> distinct (map fst kvs) \<longrightarrow>
      (\<forall>key portList. (key, portList) \<in> set kvs \<longrightarrow>
         (\<exists>s. rewrite_portList listen portList = Some (Inr s) \<and>
              config' key = Some (YString s))) \<and>
      (\<forall>key. key \<notin> fst ` set kvs \<longrightarrow> config' key = config key)) \<and>
   ((\<forall>(key, portList) \<in> set kvs. \<exists>s. rewrite_portList listen portList = Some (Inr s)) \<longrightarrow>
      (\<exists>config1. update_ports listen kvs config = Some (Inr config1)))"
proof (intro conjI impI allI)
  assume h: "is_int64 p \<and> p \<le> q \<and> q \<le> maxInt64 \<and> listen q"
  then have "minInt64 \<le> p" by (simp add: is_int64_def)
  with h obtain r where r: "findAvailablePort listen p = Some r" "p \<le> r" "listen r"
    "\<forall>k. p \<le> k \<and> k < r \<longrightarrow> \<not> listen k"
    using findAvailablePort_least [of listen q p] by blast
  have "\<not> listen p \<longrightarrow> p < r"
  proof
    assume "\<not> listen p"
    with r(3) have "p \<noteq> r" by blast
    with r(2) show "p < r" by simp
  qed
  with r show "\<exists>r. findAvailablePort listen p = Some r \<and> p \<le> r \<and> listen r \<and>
           (\<forall>k. p \<le> k \<and> k < r \<longrightarrow> \<not> listen k) \<and> (\<not> listen p \<longrightarrow> p < r)"
    by blast
next
  assume "list_all2 (\<lambda>s r. \<exists>p. Atoi (TrimSpace s) = Inr p \<and> p \<le> r \<and> r \<le> maxInt64 \<and> listen r \<and>
                      (\<forall>k. p \<le> k \<and> k < r \<longrightarrow> \<not> listen k))
      (Split portList CHR '','') rs"
  then have "negotiate_ports listen (Split portList CHR '','') [] = Some (Inr ([] @ map Itoa rs))"
    by (rule negotiate_ports_least)
  then show "rewrite_portList listen portList = Some (Inr (Join (map Itoa rs) '', ''))"
    by (simp add: rewrite_portList_def)
next
  fix key portList
  assume "update_ports listen kvs config = Some (Inr config') \<and> distinct (map fst kvs)"
    and "(key, portList) \<in> set kvs"
  then show "\<exists>s. rewrite_portList listen portList = Some (Inr s) \<and> config' key = Some (YString s)"
    using update_ports_entries [of listen kvs config config' key portList] by blast
next
  fix key
  assume "update_ports listen kvs config = Some (Inr config') \<and> distinct (map fst kvs)"
    and "key \<notin> fst ` set kvs"
  then show "config' key = config key"
    using update_ports_frame [of listen kvs config config' key] by blast
next
  assume "\<forall>(key, portList) \<in> set kvs. \<exists>s. rewrite_portList listen portList = Some (Inr s)"
  then show "\<exists>config1. update_ports listen kvs config = Some (Inr config1)"
    by (rule update_ports_total)
qed

theorem port_negotiation_witness:
  "findAvailablePort (\<lambda>p. p \<notin> {8080, 8081}) 8080 = Some 8082 \<and>
   rewrite_portList (\<lambda>p. p \<notin> {8080, 8081}) ''8080, 9000,8081'' =
     Some (Inr ''8082, 9000, 8082'') \<and>
   (\<exists>config1. update_ports (\<lambda>p. p \<notin> {8080, 8081})
       [(''http.port'', ''8080''), (''ws.ports'', ''8081, 8546'')]
       [''chain'' \<mapsto> YString ''bali''] = Some (Inr config1) \<and>
     config1 ''http.port'' = Some (YString ''8082'') \<and>
     config1 ''ws.ports'' = Some (YString ''8082, 8546'') \<and>
     config1 ''chain'' = Some (YString ''bali''))"
proof -
  let ?L = "\<lambda>p::int. p \<notin> {8080, 8081}"
  let ?kvs = "[(''http.port'', ''8080''), (''ws.ports'', ''8081, 8546'')]"
  let ?config = "[''chain'' \<mapsto> YString ''bali'']"
  have gap: "\<forall>k::int. 8080 \<le> k \<and> k < 8082 \<longrightarrow> \<not> ?L k" by auto
  have gap1: "\<forall>k::int. 8081 \<le> k \<and> k < 8082 \<longrightarrow> \<not> ?L k" by auto
  have a: "is_int64 8080 \<and> (8080::int) \<le> 8082 \<and> 8082 \<le> maxInt64 \<and> ?L 8082"
    by (simp add: is_int64_def minInt64_def maxInt64_def)
  have b: "list_all2 (\<lambda>s r. \<exists>p. Atoi (TrimSpace s) = Inr p \<and> p \<le> r \<and> r \<le> maxInt64 \<and> ?L r \<and>
                      (\<forall>k. p \<le> k \<and> k < r \<longrightarrow> \<not> ?L k))
      (Split ''8080, 9000,8081'' CHR '','') [8082, 9000, 8082]"
    using gap gap1 by (simp add: eval_strings)
  note inst = port_negotiation [of 8080 8082 ?L "''8080, 9000,8081''" "[8082, 9000, 8082]"]
  have 1: "findAvailablePort ?L 8080 = Some 8082"
    by (simp add: findAvailablePort.simps wrap64_def)
  have 2: "rewrite_portList ?L ''8080, 9000,8081'' = Some (Inr (Join (map Itoa [8082, 9000, 8082]) '', ''))"
    using inst b by blast
  have 3: "update_ports ?L ?kvs ?config =
      Some (Inr (?config(''http.port'' \<mapsto> YString ''8082'', ''ws.ports'' \<mapsto> YString ''8082, 8546'')))"
    by (simp add: rewrite_portList_def findAvailablePort.simps wrap64_def eval_strings)
  from 1 2 3 show ?thesis by (simp add: Itoa_def)
qed

lemma range_entries_set:
  "set (range_entries order m) = {(k, v). k \<in> set order \<and> m k = Some v}"
  by (induction order) (auto simp: range_entries_def map_filter_simps split: option.splits)

lemma range_entries_keys: "map fst (range_entries order m) = filter (\<lambda>k. m k \<noteq> None) order"
  by (induction order) (auto simp: range_entries_def map_filter_simps)

lemma range_entries_distinct: "distinct order \<Longrightarrow> distinct (map fst (range_entries order m))"
  by (simp add: range_entries_keys)

lemma negotiate_ports_bad_piece:
  assumes "piece \<in> set strs" and "isl (Atoi (TrimSpace piece))"
  shows "negotiate_ports listen strs acc \<noteq> Some (Inr l)"
  using assms
proof (induction strs arbitrary: acc)
  case Nil
  then show ?case by simp
next
  case (Cons s strs)
  show ?case
  proof (cases "Atoi (TrimSpace s)")
    case (Inl err)
    then show ?thesis by simp
  next
    case (Inr port)
    then have "piece \<noteq> s" using Cons.prems(2) by auto
    then have "piece \<in> set strs" using Cons.prems(1) by simp
    then have "negotiate_ports listen strs acc' \<noteq> Some (Inr l)" for acc'
      using Cons.prems(2) by (rule Cons.IH)
    then show ?thesis using Inr by (simp split: option.splits)
  qed
qed

lemma rewrite_portList_bad_piece:
  assumes "piece \<in> set (Split portList CHR '','')" and "isl (Atoi (TrimSpace piece))"
  shows "rewrite_portList listen portList \<noteq> Some (Inr s)"
  using negotiate_ports_bad_piece [OF assms, of listen "[]"]
  by (auto simp: rewrite_portList_def split: option.splits sum.splits)

lemma HasPrefix_append: "HasPrefix s (p @ q) \<Longrightarrow> HasPrefix s p"
  by (induction s p rule: HasPrefix.induct) simp_all

lemma Contains_append: "Contains s (p @ q) \<Longrightarrow> Contains s p"
proof (induction s)
  case Nil
  then show ?case by simp
next
  case (Cons c s)
  then show ?case using HasPrefix_append [of "c # s" p q] by auto
qed

lemma port_entries_iff:
  "port_entries doc k = Some s \<longleftrightarrow> (Contains k ''port'' \<and> doc k = Some (YString s))"
proof -
  have "Contains k ''ports'' \<Longrightarrow> Contains k ''port''"
    using Contains_append [of k "''port''" "''s''"] by simp
  then show ?thesis
    by (auto simp: port_entries_def split: option.splits yaml.splits)
qed

lemma updateConfig_results:
  assumes "files w configFile = Some content"
    and "yaml_Unmarshal e content = Inr doc"
    and "distinct (range_order e)"
    and "set (range_order e) = dom (port_entries doc)"
  shows
    "(\<forall>k s. port_entries doc k = Some s \<longleftrightarrow> (Contains k ''port'' \<and> doc k = Some (YString s))) \<and>
     (\<forall>name w'. updateConfig e w configFile (port_entries doc) = Some (Inr name, w') \<longrightarrow>
        name = new_name configFile \<and>
        (\<exists>doc' bytes.
           yaml_Marshal e doc' = Inr bytes \<and>
           w' = w\<lparr>files := (files w)(name \<mapsto> bytes)\<rparr> \<and>
           (\<forall>k. case port_entries doc k of
                   None \<Rightarrow> doc' k = doc k
                 | Some portList \<Rightarrow>
                     \<exists>s. rewrite_portList (listen_ok e) portList = Some (Inr s) \<and>
                         doc' k = Some (YString s)))) \<and>
     (\<forall>k portList piece.
        port_entries doc k = Some portList \<and> piece \<in> set (Split portList CHR '','') \<and>
        isl (Atoi (TrimSpace piece)) \<longrightarrow>
        (\<forall>name w'. updateConfig e w configFile (port_entries doc) \<noteq> Some (Inr name, w'))) \<and>
     (\<forall>err w'. updateConfig e w configFile (port_entries doc) = Some (Inl err, w') \<longrightarrow> w' = w)"
proof -
  let ?ports = "port_entries doc"
  let ?kvs = "range_entries (range_order e) ?ports"
  have kvs: "(k, v) \<in> set ?kvs \<longleftrightarrow> ?ports k = Some v" for k v
    using assms(4) by (auto simp: range_entries_set)
  have dist: "distinct (map fst ?kvs)"
    using assms(3) by (rule range_entries_distinct)
  have shape: "\<exists>doc' bytes. update_ports (listen_ok e) ?kvs doc = Some (Inr doc') \<and>
        yaml_Marshal e doc' = Inr bytes \<and> name = new_name configFile \<and>
        w' = w\<lparr>files := (files w)(name \<mapsto> bytes)\<rparr>"
    if "updateConfig e w configFile ?ports = Some (Inr name, w')" for name w'
    using that assms(1,2)
    by (auto simp: updateConfig_def Let_def split: option.splits sum.splits)
  have 1: "\<forall>k s. ?ports k = Some s \<longleftrightarrow> (Contains k ''port'' \<and> doc k = Some (YString s))"
    by (simp add: port_entries_iff)
  have 2: "name = new_name configFile \<and>
        (\<exists>doc' bytes.
           yaml_Marshal e doc' = Inr bytes \<and>
           w' = w\<lparr>files := (files w)(name \<mapsto> bytes)\<rparr> \<and>
           (\<forall>k. case ?ports k of
                   None \<Rightarrow> doc' k = doc k
                 | Some portList \<Rightarrow>
                     \<exists>s. rewrite_portList (listen_ok e) portList = Some (Inr s) \<and>
                         doc' k = Some (YString s)))"
    if u: "updateConfig e w configFile ?ports = Some (Inr name, w')" for name w'
  proof -
    from shape [OF u] obtain doc' bytes where d:
      "update_ports (listen_ok e) ?kvs doc = Some (Inr doc')"
      "yaml_Marshal e doc' = Inr bytes" "name = new_name configFile"
      "w' = w\<lparr>files := (files w)(name \<mapsto> bytes)\<rparr>"
      by blast
    have "case ?ports k of
            None \<Rightarrow> doc' k = doc k
          | Some portList \<Rightarrow>
              \<exists>s. rewrite_portList (listen_ok e) portList = Some (Inr s) \<and>
                  doc' k = Some (YString s)" for k
    proof (cases "?ports k")
      case None
      then have "k \<notin> fst ` set ?kvs" using kvs by force
      with d(1) have "doc' k = doc k" by (rule update_ports_frame)
      with None show ?thesis by simp
    next
      case (Some portList)
      then have "(k, portList) \<in> set ?kvs" using kvs by simp
      with d(1) dist
      have "\<exists>s. rewrite_portList (listen_ok e) portList = Some (Inr s) \<and> doc' k = Some (YString s)"
        by (rule update_ports_entries)
      with Some show ?thesis by simp
    qed
    with d show ?thesis by blast
  qed
  have 3: "updateConfig e w configFile ?ports \<noteq> Some (Inr name, w')"
    if bad: "?ports k = Some portList \<and> piece \<in> set (Split portList CHR '','') \<and>
        isl (Atoi (TrimSpace piece))" for k portList piece name w'
  proof
    assume u: "updateConfig e w configFile ?ports = Some (Inr name, w')"
    from shape [OF u] obtain doc' where d: "update_ports (listen_ok e) ?kvs doc = Some (Inr doc')"
      by blast
    from bad have "(k, portList) \<in> set ?kvs" using kvs by simp
    with d dist obtain s where "rewrite_portList (listen_ok e) portList = Some (Inr s)"
      using update_ports_entries by blast
    then show False using rewrite_portList_bad_piece bad by blast
  qed
  have 4: "w' = w" if "updateConfig e w configFile ?ports = Some (Inl err, w')" for err w'
    using that
    by (auto simp: updateConfig_def Let_def split: option.splits sum.splits)
  from 1 2 3 4 show ?thesis by blast
qed

lemma negotiate_ports_returns:
  assumes "\<forall>piece \<in> set strs. \<forall>p. Atoi (TrimSpace piece) = Inr p \<longrightarrow>
             (\<exists>q. p \<le> q \<and> q \<le> maxInt64 \<and> listen q)"
  shows "(\<exists>l. negotiate_ports listen strs acc = Some (Inr l)) \<or>
         (\<exists>piece \<in> set strs. \<exists>err. Atoi (TrimSpace piece) = Inl err \<and>
            negotiate_ports listen strs acc = Some (Inl (AtoiError err)))"
  using assms
proof (induction strs arbitrary: acc)
  case Nil
  then show ?case by simp
next
  case (Cons s strs)
  show ?case
  proof (cases "Atoi (TrimSpace s)")
    case (Inl err)
    then show ?thesis by auto
  next
    case (Inr p)
    then obtain q where q: "p \<le> q" "q \<le> maxInt64" "listen q"
      using Cons.prems by auto
    have "minInt64 \<le> p" using Atoi_is_int64 [OF Inr] by (simp add: is_int64_def)
    from findAvailablePort_least [of listen q p, OF q(3) q(1) q(2) this]
    obtain r where r: "findAvailablePort listen p = Some r" by blast
    have "(\<exists>l. negotiate_ports listen strs (acc @ [Itoa r]) = Some (Inr l)) \<or>
         (\<exists>piece \<in> set strs. \<exists>err. Atoi (TrimSpace piece) = Inl err \<and>
            negotiate_ports listen strs (acc @ [Itoa r]) = Some (Inl (AtoiError err)))"
      using Cons.prems by (intro Cons.IH) simp
    then show ?thesis using Inr r by auto
  qed
qed

lemma rewrite_portList_returns:
  assumes "\<forall>piece \<in> set (Split portList CHR '',''). \<forall>p. Atoi (TrimSpace piece) = Inr p \<longrightarrow>
             (\<exists>q. p \<le> q \<and> q \<le> maxInt64 \<and> listen q)"
  shows "(\<exists>s. rewrite_portList listen portList = Some (Inr s)) \<or>
         (\<exists>piece \<in> set (Split portList CHR '',''). \<exists>err. Atoi (TrimSpace piece) = Inl err \<and>
            rewrite_portList listen portList = Some (Inl (AtoiError err)))"
  using negotiate_ports_returns [OF assms, of "[]"]
  by (auto simp: rewrite_portList_def)

lemma update_ports_returns:
  assumes "\<forall>(k, portList) \<in> set kvs. \<forall>piece \<in> set (Split portList CHR '',''). \<forall>p.
             Atoi (TrimSpace piece) = Inr p \<longrightarrow> (\<exists>q. p \<le> q \<and> q \<le> maxInt64 \<and> listen q)"
  shows "(\<exists>config1. update_ports listen kvs config = Some (Inr config1)) \<or>
         (\<exists>(k, portList) \<in> set kvs. \<exists>piece \<in> set (Split portList CHR '',''). \<exists>err.
            Atoi (TrimSpace piece) = Inl err \<and>
            update_ports listen kvs config = Some (Inl (AtoiError err)))"
  using assms
proof (induction kvs arbitrary: config)
  case Nil
  then show ?case by simp
next
  case (Cons kv kvs)
  obtain k pl where kv: "kv = (k, pl)" by (cases kv)
  have pl: "\<forall>piece \<in> set (Split pl CHR '',''). \<forall>p. Atoi (TrimSpace piece) = Inr p \<longrightarrow>
             (\<exists>q. p \<le> q \<and> q \<le> maxInt64 \<and> listen q)"
    using Cons.prems kv by simp
  from rewrite_portList_returns [OF pl]
  show ?case
  proof
    assume "\<exists>s. rewrite_portList listen pl = Some (Inr s)"
    then obtain s where s: "rewrite_portList listen pl = Some (Inr s)" by blast
    have "(\<exists>config1. update_ports listen kvs (config(k \<mapsto> YString s)) = Some (Inr config1)) \<or>
         (\<exists>(k', portList) \<in> set kvs. \<exists>piece \<in> set (Split portList CHR '',''). \<exists>err.
            Atoi (TrimSpace piece) = Inl err \<and>
            update_ports listen kvs (config(k \<mapsto> YString s)) = Some (Inl (AtoiError err)))"
    proof (rule Cons.IH)
      show "\<forall>(k, portList) \<in> set kvs. \<forall>piece \<in> set (Split portList CHR '',''). \<forall>p.
             Atoi (TrimSpace piece) = Inr p \<longrightarrow> (\<exists>q. p \<le> q \<and> q \<le> maxInt64 \<and> listen q)"
        using Cons.prems by simp
    qed
    then show ?thesis using s kv by auto
  next
    assume "\<exists>piece \<in> set (Split pl CHR '',''). \<exists>err. Atoi (TrimSpace piece) = Inl err \<and>
            rewrite_portList listen pl = Some (Inl (AtoiError err))"
    then show ?thesis using kv by auto
  qed
qed

text \<open>
  Claim C6, as amended. The keys subject to rewriting are those that contain \<open>port\<close> and
  hold a string. When every piece of their port lists is an integer, some port from each
  on can be bound, and encoding and writing succeed, \<open>updateConfig\<close> returns the name of the
  new file, the file exists, and \<open>main\<close> goes on to build and start the child; in the
  document written, each such key holds the rewriting of its port list and every other key
  its old value. When some piece is not an integer (and the probes of the integer pieces
  return), \<open>updateConfig\<close> returns the error \<open>strconv.Atoi\<close> gives for such a piece and
  leaves the world as it was, and \<open>main\<close> ends in \<open>log.Fatalf\<close>. In no case does
  \<open>updateConfig\<close> return a file name when a piece is not an integer, or write anything
  when it returns an error. The order in which \<open>range\<close> visits the port table is any list
  of its keys without repetition.
\<close>

theorem updateConfig_port_keys:
  assumes "files w configFile = Some content"
    and "yaml_Unmarshal e content = Inr doc"
    and "distinct (range_order e)"
    and "set (range_order e) = dom (port_entries doc)"
  shows
    "(\<forall>k s. port_entries doc k = Some s \<longleftrightarrow> (Contains k ''port'' \<and> doc k = Some (YString s))) \<and>
     (\<forall>name w'. updateConfig e w configFile (port_entries doc) = Some (Inr name, w') \<longrightarrow>
        name = new_name configFile \<and>
        (\<exists>doc' bytes.
           yaml_Marshal e doc' = Inr bytes \<and>
           w' = w\<lparr>files := (files w)(name \<mapsto> bytes)\<rparr> \<and>
           (\<forall>k. case port_entries doc k of
                   None \<Rightarrow> doc' k = doc k
                 | Some portList \<Rightarrow>
                     \<exists>s. rewrite_portList (listen_ok e) portList = Some (Inr s) \<and>
                         doc' k = Some (YString s)))) \<and>
     (\<forall>k portList piece.
        port_entries doc k = Some portList \<and> piece \<in> set (Split portList CHR '','') \<and>
        isl (Atoi (TrimSpace piece)) \<longrightarrow>
        (\<forall>name w'. updateConfig e w configFile (port_entries doc) \<noteq> Some (Inr name, w'))) \<and>
     (\<forall>err w'. updateConfig e w configFile (port_entries doc) = Some (Inl err, w') \<longrightarrow> w' = w) \<and>
     (all_integers (port_entries doc) \<and> probes_return (listen_ok e) (port_entries doc) \<and>
      (\<forall>d. \<exists>bytes. yaml_Marshal e d = Inr bytes) \<and>
      write_error e (new_name configFile) = None \<longrightarrow>
        (\<exists>w'. updateConfig e w configFile (port_entries doc) =
                 Some (Inr (new_name configFile), w') \<and>
              files w' (new_name configFile) \<noteq> None \<and>
              (configFile = erigonConfigPath e \<and> abs_error e configFile = None \<and>
               readConfig e w (flag_config e) = Inr config \<and>
               list_all (regexp_ok e) (map Pattern (Patterns config)) \<longrightarrow>
                 main e w =
                   Some (supervise e config (map Pattern (Patterns config))
                           (NewAlertManager (wrap64 (DefaultTimeoutMinutes config * Minute))
                              (main_patternCooldowns (Patterns config) Map.empty))
                           (new_name configFile) w')))) \<and>
     (\<not> all_integers (port_entries doc) \<and> probes_return (listen_ok e) (port_entries doc) \<longrightarrow>
        (\<exists>k portList piece err.
           port_entries doc k = Some portList \<and> piece \<in> set (Split portList CHR '','') \<and>
           Atoi (TrimSpace piece) = Inl err \<and>
           updateConfig e w configFile (port_entries doc) = Some (Inl (AtoiError err), w)) \<and>
        (configFile = erigonConfigPath e \<and> abs_error e configFile = None \<and>
         readConfig e w (flag_config e) = Inr config \<and>
         list_all (regexp_ok e) (map Pattern (Patterns config)) \<longrightarrow>
           main e w = Some (Exited, w\<lparr>stderr := stderr w @ [''Error updating config file'']\<rparr>)))"
proof -
  let ?ports = "port_entries doc"
  let ?kvs = "range_entries (range_order e) ?ports"
  let ?upd = "updateConfig e w configFile ?ports"
  note partial = updateConfig_results [OF assms]
  have kvs: "(k, v) \<in> set ?kvs \<longleftrightarrow> ?ports k = Some v" for k v
    using assms(4) by (auto simp: range_entries_set)
  have dist: "distinct (map fst ?kvs)"
    using assms(3) by (rule range_entries_distinct)
  have extracted: "extractPorts e w configFile = Inr ?ports" if "abs_error e configFile = None"
    using that assms(1,2) by (simp add: extractPorts_def)
  have loop_returns: "(\<exists>config1. update_ports (listen_ok e) ?kvs doc = Some (Inr config1)) \<or>
         (\<exists>(k, portList) \<in> set ?kvs. \<exists>piece \<in> set (Split portList CHR '',''). \<exists>err.
            Atoi (TrimSpace piece) = Inl err \<and>
            update_ports (listen_ok e) ?kvs doc = Some (Inl (AtoiError err)))"
    if pr: "probes_return (listen_ok e) ?ports"
  proof (rule update_ports_returns)
    show "\<forall>(k, portList) \<in> set ?kvs. \<forall>piece \<in> set (Split portList CHR '',''). \<forall>p.
             Atoi (TrimSpace piece) = Inr p \<longrightarrow> (\<exists>q. p \<le> q \<and> q \<le> maxInt64 \<and> listen_ok e q)"
    proof (intro ballI allI impI, clarify)
      fix k portList piece p
      assume "(k, portList) \<in> set ?kvs" "piece \<in> set (Split portList CHR '','')"
        "Atoi (TrimSpace piece) = Inr p"
      then show "\<exists>q. p \<le> q \<and> q \<le> maxInt64 \<and> listen_ok e q"
        using pr kvs unfolding probes_return_def by blast
    qed
  qed
  have good: "\<exists>w'. ?upd = Some (Inr (new_name configFile), w') \<and>
              files w' (new_name configFile) \<noteq> None \<and>
              (configFile = erigonConfigPath e \<and> abs_error e configFile = None \<and>
               readConfig e w (flag_config e) = Inr config \<and>
               list_all (regexp_ok e) (map Pattern (Patterns config)) \<longrightarrow>
                 main e w =
                   Some (supervise e config (map Pattern (Patterns config))
                           (NewAlertManager (wrap64 (DefaultTimeoutMinutes config * Minute))
                              (main_patternCooldowns (Patterns config) Map.empty))
                           (new_name configFile) w'))"
    if h: "all_integers ?ports \<and> probes_return (listen_ok e) ?ports \<and>
      (\<forall>d. \<exists>bytes. yaml_Marshal e d = Inr bytes) \<and>
      write_error e (new_name configFile) = None"
  proof -
    have "\<not> (\<exists>(k, portList) \<in> set ?kvs. \<exists>piece \<in> set (Split portList CHR '',''). \<exists>err.
            Atoi (TrimSpace piece) = Inl err \<and>
            update_ports (listen_ok e) ?kvs doc = Some (Inl (AtoiError err)))"
    proof
      assume "\<exists>(k, portList) \<in> set ?kvs. \<exists>piece \<in> set (Split portList CHR '',''). \<exists>err.
            Atoi (TrimSpace piece) = Inl err \<and>
            update_ports (listen_ok e) ?kvs doc = Some (Inl (AtoiError err))"
      then obtain k portList piece err where b: "(k, portList) \<in> set ?kvs"
        "piece \<in> set (Split portList CHR '','')" "Atoi (TrimSpace piece) = Inl err"
        by blast
      then have "?ports k = Some portList" using kvs by simp
      with b h show False unfolding all_integers_def by force
    qed
    with loop_returns h obtain config1 where c: "update_ports (listen_ok e) ?kvs doc = Some (Inr config1)"
      by blast
    from h obtain bytes where m: "yaml_Marshal e config1 = Inr bytes" by blast
    let ?w' = "w\<lparr>files := (files w)(new_name configFile \<mapsto> bytes)\<rparr>"
    have u: "?upd = Some (Inr (new_name configFile), ?w')"
      using assms(1,2) c m h by (simp add: updateConfig_def Let_def)
    have "main e w =
          Some (supervise e config (map Pattern (Patterns config))
                  (NewAlertManager (wrap64 (DefaultTimeoutMinutes config * Minute))
                     (main_patternCooldowns (Patterns config) Map.empty))
                  (new_name configFile) ?w')"
      if "configFile = erigonConfigPath e \<and> abs_error e configFile = None \<and>
               readConfig e w (flag_config e) = Inr config \<and>
               list_all (regexp_ok e) (map Pattern (Patterns config))"
    proof -
      from that have "abs_error e configFile = None" by blast
      then have "extractPorts e w configFile = Inr ?ports" by (rule extracted)
      with that u show ?thesis by (simp add: main_def Let_def)
    qed
    with u show ?thesis by auto
  qed
  have bad: "(\<exists>k portList piece err.
           ?ports k = Some portList \<and> piece \<in> set (Split portList CHR '','') \<and>
           Atoi (TrimSpace piece) = Inl err \<and> ?upd = Some (Inl (AtoiError err), w)) \<and>
        (configFile = erigonConfigPath e \<and> abs_error e configFile = None \<and>
         readConfig e w (flag_config e) = Inr config \<and>
         list_all (regexp_ok e) (map Pattern (Patterns config)) \<longrightarrow>
           main e w = Some (Exited, w\<lparr>stderr := stderr w @ [''Error updating config file'']\<rparr>))"
    if h: "\<not> all_integers ?ports \<and> probes_return (listen_ok e) ?ports"
  proof -
    from h obtain k0 pl0 piece0 where b0: "?ports k0 = Some pl0"
      "piece0 \<in> set (Split pl0 CHR '','')" "isl (Atoi (TrimSpace piece0))"
      unfolding all_integers_def by blast
    have "\<not> (\<exists>config1. update_ports (listen_ok e) ?kvs doc = Some (Inr config1))"
    proof
      assume "\<exists>config1. update_ports (listen_ok e) ?kvs doc = Some (Inr config1)"
      then obtain config1 where c: "update_ports (listen_ok e) ?kvs doc = Some (Inr config1)"
        by blast
      have "(k0, pl0) \<in> set ?kvs" using b0 kvs by simp
      with c dist obtain s where "rewrite_portList (listen_ok e) pl0 = Some (Inr s)"
        using update_ports_entries by blast
      then show False using rewrite_portList_bad_piece b0 by blast
    qed
    with loop_returns h obtain k portList piece err where b: "(k, portList) \<in> set ?kvs"
      "piece \<in> set (Split portList CHR '','')" "Atoi (TrimSpace piece) = Inl err"
      "update_ports (listen_ok e) ?kvs doc = Some (Inl (AtoiError err))"
      by blast
    have p: "?ports k = Some portList" using b(1) kvs by simp
    have u: "?upd = Some (Inl (AtoiError err), w)"
      using assms(1,2) b(4) by (simp add: updateConfig_def)
    have "main e w = Some (Exited, w\<lparr>stderr := stderr w @ [''Error updating config file'']\<rparr>)"
      if "configFile = erigonConfigPath e \<and> abs_error e configFile = None \<and>
         readConfig e w (flag_config e) = Inr config \<and>
         list_all (regexp_ok e) (map Pattern (Patterns config))"
    proof -
      from that have "abs_error e configFile = None" by blast
      then have "extractPorts e w configFile = Inr ?ports" by (rule extracted)
      with that u show ?thesis by (simp add: main_def Let_def Fatalf_def)
    qed
    with p b(2,3) u show ?thesis by blast
  qed
  from partial good bad show ?thesis by blast
qed

text \<open>
  Claim C6 as stated fails: a key \<open>support_url\<close>, which contains \<open>port\<close> and holds a string
  that is no list of integers, is taken into the port table, \<open>updateConfig\<close> returns the
  error of \<open>strconv.Atoi\<close>, and \<open>main\<close> ends in \<open>log.Fatalf\<close> with no new file written.
\<close>

theorem port_named_text_aborts_run:
  "port_entries (demo_document(''support_url'' \<mapsto> YString ''https://example.org''))
      ''support_url'' = Some ''https://example.org'' \<and>
   main (demo_env\<lparr>yaml_Unmarshal :=
                      (\<lambda>content. Inr (demo_document(''support_url'' \<mapsto>
                                                       YString ''https://example.org''))),
                   range_order := [''http.port'', ''support_url'']\<rparr>)
        demo_world =
     Some (Exited, demo_world\<lparr>stderr := [''Error updating config file'']\<rparr>)"
  by (simp add: eval_demo port_entries_def main_def readConfig_def extractPorts_def
      updateConfig_def range_entries_def map_filter_simps rewrite_portList_def
      findAvailablePort.simps wrap64_def eval_strings Fatalf_def Let_def)

theorem updateConfig_port_keys_witness:
  "(\<exists>w'. updateConfig demo_env demo_world ''./hermezconfig-bali.yaml''
            (port_entries demo_document) =
           Some (Inr ''./hermezconfig-bali_new.yaml'', w') \<and>
         files w' ''./hermezconfig-bali_new.yaml'' = Some ''rewritten'' \<and>
         main demo_env demo_world =
           Some (supervise demo_env demo_config [''ERROR'']
                   (NewAlertManager (10 * Minute) [''ERROR'' \<mapsto> 5 * Minute])
                   ''./hermezconfig-bali_new.yaml'' w')) \<and>
   rewrite_portList (listen_ok demo_env) ''8545'' = Some (Inr ''8546'') \<and>
   updateConfig
     (demo_env\<lparr>yaml_Unmarshal :=
                  (\<lambda>content. Inr (demo_document(''support_url'' \<mapsto>
                                                   YString ''https://example.org''))),
               range_order := [''http.port'', ''support_url'']\<rparr>)
     demo_world ''./hermezconfig-bali.yaml''
     (port_entries (demo_document(''support_url'' \<mapsto> YString ''https://example.org''))) =
     Some (Inl (AtoiError ErrSyntax), demo_world) \<and>
   main (demo_env\<lparr>yaml_Unmarshal :=
                      (\<lambda>content. Inr (demo_document(''support_url'' \<mapsto>
                                                       YString ''https://example.org''))),
                   range_order := [''http.port'', ''support_url'']\<rparr>)
        demo_world =
     Some (Exited, demo_world\<lparr>stderr := stderr demo_world @ [''Error updating config file'']\<rparr>)"
proof -
  let ?f = "''./hermezconfig-bali.yaml''"
  let ?doc2 = "demo_document(''support_url'' \<mapsto> YString ''https://example.org'')"
  let ?e2 = "demo_env\<lparr>yaml_Unmarshal := (\<lambda>content. Inr ?doc2),
               range_order := [''http.port'', ''support_url'']\<rparr>"
  have tab1: "port_entries demo_document k = Some pl \<longleftrightarrow> k = ''http.port'' \<and> pl = ''8545''"
    for k pl
    by (auto simp: port_entries_def demo_document_def split: if_splits)
  have tab2: "port_entries ?doc2 k = Some pl \<longleftrightarrow>
      k = ''http.port'' \<and> pl = ''8545'' \<or> k = ''support_url'' \<and> pl = ''https://example.org''"
    for k pl
    by (auto simp: port_entries_def demo_document_def split: if_splits)
  have p8545: "Atoi (TrimSpace ''8545'') = Inr 8545"
    by (simp add: eval_strings)
  have url: "Atoi (TrimSpace ''https://example.org'') = Inl ErrSyntax"
    by (simp add: eval_strings)
  have free: "(8545::int) \<le> 8546 \<and> 8546 \<le> maxInt64 \<and> listen_ok demo_env 8546"
    "(8545::int) \<le> 8546 \<and> 8546 \<le> maxInt64 \<and> listen_ok ?e2 8546"
    by (simp_all add: maxInt64_def demo_env_def)
  have 1: "files demo_world ?f = Some ''child configuration''"
    by (simp add: eval_demo)
  have 2: "yaml_Unmarshal demo_env ''child configuration'' = Inr demo_document"
    "yaml_Unmarshal ?e2 ''child configuration'' = Inr ?doc2"
    by (simp_all add: eval_demo)
  have 3: "distinct (range_order demo_env)" "distinct (range_order ?e2)"
    by (simp_all add: eval_demo)
  have 4: "set (range_order demo_env) = dom (port_entries demo_document)"
    "set (range_order ?e2) = dom (port_entries ?doc2)"
    using tab1 tab2 by (auto simp: demo_env_def dom_def)
  have pr1: "probes_return (listen_ok demo_env) (port_entries demo_document)"
    unfolding probes_return_def tab1
  proof (intro allI impI)
    fix k portList piece p
    assume "(k = ''http.port'' \<and> portList = ''8545'') \<and>
        piece \<in> set (Split portList CHR '','') \<and> Atoi (TrimSpace piece) = Inr p"
    then have "p = 8545" using p8545 by auto
    then show "\<exists>q. p \<le> q \<and> q \<le> maxInt64 \<and> listen_ok demo_env q"
      using free(1) by blast
  qed
  have pr2: "probes_return (listen_ok ?e2) (port_entries ?doc2)"
    unfolding probes_return_def tab2
  proof (intro allI impI)
    fix k portList piece p
    assume "(k = ''http.port'' \<and> portList = ''8545'' \<or>
         k = ''support_url'' \<and> portList = ''https://example.org'') \<and>
        piece \<in> set (Split portList CHR '','') \<and> Atoi (TrimSpace piece) = Inr p"
    then have "p = 8545" using p8545 url by auto
    then show "\<exists>q. p \<le> q \<and> q \<le> maxInt64 \<and> listen_ok ?e2 q"
      using free(2) by blast
  qed
  have ai: "all_integers (port_entries demo_document)"
    unfolding all_integers_def tab1 using p8545 by auto
  have good: "all_integers (port_entries demo_document) \<and>
      probes_return (listen_ok demo_env) (port_entries demo_document) \<and>
      (\<forall>d. \<exists>bytes. yaml_Marshal demo_env d = Inr bytes) \<and>
      write_error demo_env (new_name ?f) = None"
    using ai pr1 by (simp add: demo_env_def)
  have bad: "\<not> all_integers (port_entries ?doc2) \<and>
      probes_return (listen_ok ?e2) (port_entries ?doc2)"
  proof
    have "port_entries ?doc2 ''support_url'' = Some ''https://example.org'' \<and>
          ''https://example.org'' \<in> set (Split ''https://example.org'' CHR '','') \<and>
          isl (Atoi (TrimSpace ''https://example.org''))"
      using url by (simp add: tab2)
    then show "\<not> all_integers (port_entries ?doc2)"
      unfolding all_integers_def by blast
    show "probes_return (listen_ok ?e2) (port_entries ?doc2)" by (rule pr2)
  qed
  have run: "?f = erigonConfigPath demo_env \<and> abs_error demo_env ?f = None \<and>
      readConfig demo_env demo_world (flag_config demo_env) = Inr demo_config \<and>
      list_all (regexp_ok demo_env) (map Pattern (Patterns demo_config))"
    "?f = erigonConfigPath ?e2 \<and> abs_error ?e2 ?f = None \<and>
      readConfig ?e2 demo_world (flag_config ?e2) = Inr demo_config \<and>
      list_all (regexp_ok ?e2) (map Pattern (Patterns demo_config))"
    by (simp_all add: eval_demo readConfig_def)
  have nm: "new_name ?f = ''./hermezconfig-bali_new.yaml''"
    by (simp add: new_name_def Ext_def)
  note a = updateConfig_port_keys [OF 1 2(1) 3(1) 4(1), where config = demo_config]
  note b = updateConfig_port_keys [OF 1 2(2) 3(2) 4(2), where config = demo_config]
  from a good run(1) obtain w' where w':
    "updateConfig demo_env demo_world ?f (port_entries demo_document) = Some (Inr (new_name ?f), w')"
    "main demo_env demo_world =
       Some (supervise demo_env demo_config (map Pattern (Patterns demo_config))
               (NewAlertManager (wrap64 (DefaultTimeoutMinutes demo_config * Minute))
                  (main_patternCooldowns (Patterns demo_config) Map.empty))
               (new_name ?f) w')"
    by blast
  have c: "updateConfig demo_env demo_world ?f (port_entries demo_document) =
     Some (Inr ''./hermezconfig-bali_new.yaml'',
           demo_world\<lparr>files := (files demo_world)
              (''./hermezconfig-bali_new.yaml'' \<mapsto> ''rewritten'')\<rparr>)"
    by (simp add: eval_demo port_entries_def updateConfig_def range_entries_def map_filter_simps
        rewrite_portList_def findAvailablePort.simps wrap64_def eval_strings Let_def
        new_name_def Ext_def digits.simps)
  from w'(1) have "updateConfig demo_env demo_world ?f (port_entries demo_document) =
      Some (Inr ''./hermezconfig-bali_new.yaml'', w')"
    unfolding nm .
  with c have weq: "w' = demo_world\<lparr>files := (files demo_world)
              (''./hermezconfig-bali_new.yaml'' \<mapsto> ''rewritten'')\<rparr>"
    by (simp del: fun_upd_apply)
  have first: "\<exists>w'. updateConfig demo_env demo_world ?f (port_entries demo_document) =
           Some (Inr ''./hermezconfig-bali_new.yaml'', w') \<and>
         files w' ''./hermezconfig-bali_new.yaml'' = Some ''rewritten'' \<and>
         main demo_env demo_world =
           Some (supervise demo_env demo_config [''ERROR'']
                   (NewAlertManager (10 * Minute) [''ERROR'' \<mapsto> 5 * Minute])
                   ''./hermezconfig-bali_new.yaml'' w')"
    using w' weq nm
    by (simp add: demo_config_def rule_cooldown_def wrap64_def Minute_def)
  have second: "rewrite_portList (listen_ok demo_env) ''8545'' = Some (Inr ''8546'')"
    by (simp add: demo_env_def rewrite_portList_def findAvailablePort.simps wrap64_def
        eval_strings digits.simps)
  from b bad run(2) obtain k portList piece err where e:
    "Atoi (TrimSpace piece) = Inl err"
    "updateConfig ?e2 demo_world ?f (port_entries ?doc2) = Some (Inl (AtoiError err), demo_world)"
    and m: "main ?e2 demo_world =
       Some (Exited, demo_world\<lparr>stderr := stderr demo_world @ [''Error updating config file'']\<rparr>)"
    by blast
  have "updateConfig ?e2 demo_world ?f (port_entries ?doc2) =
      Some (Inl (AtoiError ErrSyntax), demo_world)"
    by (simp add: eval_demo port_entries_def updateConfig_def range_entries_def map_filter_simps
        rewrite_portList_def findAvailablePort.simps wrap64_def eval_strings Let_def
        digits.simps)
  with first second m show ?thesis by simp
qed

section \<open>Properties of the supervisor and the dispatcher\<close>

lemma sendGoogleChatAlert_files: "files (sendGoogleChatAlert e url p l n w) = files w"
  by (simp add: sendGoogleChatAlert_def Let_def split: sum.splits option.splits)

lemma logToFile_other: "tmp \<noteq> logFile \<Longrightarrow> files (logToFile e l logFile p w) tmp = files w tmp"
  by (simp add: logToFile_def Let_def split: option.splits)

lemma logToFile_attempts: "attempts (logToFile e l logFile p w) = attempts w"
  by (simp add: logToFile_def Let_def split: option.splits)

lemma handle_line_files:
  "tmp \<noteq> LogFile config \<Longrightarrow>
     files (snd (handle_line e config ps st ln)) tmp = files (snd st) tmp"
  by (cases st; cases ln)
     (simp add: handle_line_def Let_def sendGoogleChatAlert_files logToFile_other
        split: prod.splits)

lemma scan_loop_files:
  "tmp \<noteq> LogFile config \<Longrightarrow>
     files (snd (scan_loop e config ps st lines)) tmp = files (snd st) tmp"
  by (induction lines arbitrary: st) (simp_all add: handle_line_files)

text \<open>
  In general: after the deferred removal is registered, the temporary file is removed
  exactly when \<open>main\<close> returns; every ending through \<open>log.Fatalf\<close> leaves it as it was. (The
  line log is taken to be another file.)
\<close>

lemma supervise_temp_file:
  assumes "tmp \<noteq> LogFile config"
    and "supervise e config ps am tmp w = (r, w')"
  shows "files w' tmp = (if r = Returned then None else files w tmp)"
proof -
  have "files (snd (scan_loop e config ps (am, w) (child_output e))) tmp = files w tmp"
    using assms(1) by (simp add: scan_loop_files)
  then show ?thesis using assms(2)
    by (auto simp: supervise_def Fatalf_def os_Remove_def Let_def
        split: option.splits prod.splits)
qed

text \<open>
  Claim C2 on the concrete run. The rewritten configuration file is created in all four
  runs. When the child cannot be started, and when it exits with a non-zero status,
  \<open>main\<close> ends in \<open>log.Fatalf\<close> and the file is still there; when reading the child's
  output fails, and when the child exits with status zero, \<open>main\<close> returns and the file is
  gone.
\<close>

theorem temp_file_left_after_fatal_exit:
  "map_option (\<lambda>(r, w). (r, files w ''./hermezconfig-bali_new.yaml''))
     (main (demo_env\<lparr>start_error := Some ''exec format error''\<rparr>) demo_world) =
     Some (Exited, Some ''rewritten'') \<and>
   map_option (\<lambda>(r, w). (r, files w ''./hermezconfig-bali_new.yaml''))
     (main (demo_env\<lparr>wait_error := Some ''exit status 1''\<rparr>) demo_world) =
     Some (Exited, Some ''rewritten'') \<and>
   map_option (\<lambda>(r, w). (r, files w ''./hermezconfig-bali_new.yaml''))
     (main (demo_env\<lparr>scan_error := Some ''token too long''\<rparr>) demo_world) =
     Some (Returned, None) \<and>
   map_option (\<lambda>(r, w). (r, files w ''./hermezconfig-bali_new.yaml''))
     (main demo_env demo_world) = Some (Returned, None)"
  by (simp add: eval_demo eval_strings eval_main)

lemma digit_of_nth: "d < 10 \<Longrightarrow> digit_of (''0123456789'' ! d) = Some d"
proof -
  assume "d < 10"
  then have "d \<in> {0, 1, 2, 3, 4, 5, 6, 7, 8, 9}" by auto
  then show ?thesis by (auto simp: digit_of_def)
qed

lemma digit_not_sign:
  "d < 10 \<Longrightarrow> ''0123456789'' ! d \<noteq> CHR ''-'' \<and> ''0123456789'' ! d \<noteq> CHR ''+''"
proof -
  assume "d < 10"
  then have "d \<in> {0, 1, 2, 3, 4, 5, 6, 7, 8, 9}" by auto
  then show ?thesis by auto
qed

lemma parse_digits_append:
  "parse_digits (xs @ ys) acc =
     (case parse_digits xs acc of None \<Rightarrow> None | Some a \<Rightarrow> parse_digits ys a)"
  by (induction xs arbitrary: acc) (simp_all split: option.splits)

declare digits.simps [simp del]

lemma parse_digits_digits: "parse_digits (digits n) 0 = Some n"
proof (induction n rule: digits.induct)
  case (1 n)
  show ?case
  proof (cases "n < 10")
    case True
    then show ?thesis by (subst digits.simps) (simp add: digit_of_nth)
  next
    case False
    then have "parse_digits (digits (n div 10)) 0 = Some (n div 10)" by (rule "1.IH")
    then show ?thesis using False
      by (subst digits.simps) (simp add: parse_digits_append digit_of_nth)
  qed
qed

lemma digits_head:
  "\<exists>c cs. digits n = c # cs \<and> c \<noteq> CHR ''-'' \<and> c \<noteq> CHR ''+''"
proof (induction n rule: digits.induct)
  case (1 n)
  show ?case
  proof (cases "n < 10")
    case True
    then show ?thesis using digit_not_sign [of n] by (subst digits.simps) simp
  next
    case False
    then obtain c cs where "digits (n div 10) = c # cs" "c \<noteq> CHR ''-''" "c \<noteq> CHR ''+''"
      using "1.IH" by blast
    then show ?thesis using False by (subst digits.simps) simp
  qed
qed

lemma Atoi_Itoa: "is_int64 i \<Longrightarrow> Atoi (Itoa i) = Inr i"
proof (cases "i < 0")
  case True
  assume r: "is_int64 i"
  obtain c cs where d: "digits (nat (- i)) = c # cs" using digits_head by blast
  have "parse_digits (c # cs) 0 = Some (nat (- i))"
    using parse_digits_digits [of "nat (- i)"] d by simp
  then show ?thesis using True r d
    by (simp add: Atoi_def Itoa_def del: parse_digits.simps)
next
  case False
  assume r: "is_int64 i"
  obtain c cs where d: "digits (nat i) = c # cs" "c \<noteq> CHR ''-''" "c \<noteq> CHR ''+''"
    using digits_head by blast
  have "parse_digits (c # cs) 0 = Some (nat i)"
    using parse_digits_digits [of "nat i"] d by simp
  then show ?thesis using False r d
    by (simp add: Atoi_def Itoa_def del: parse_digits.simps)
qed

text \<open>
  Claim C9. The text of an alert is the prefix, a newline and the line, followed, exactly
  when the reported count \<open>n\<close> is positive, by a newline and \<open>Suppressed n duplicate(s)\<close>
  with \<open>n\<close> in decimal (the decimal form reads back as \<open>n\<close>). When the request can be built,
  the dispatcher hands exactly one request to the client: a \<open>POST\<close> to the webhook URL
  with the single header \<open>Content-Type: application/json\<close>, whose body is the encoding
  \<open>json.Marshal\<close> gives for the object with the single field \<open>text\<close> holding that text.
\<close>

theorem alert_payload:
  "alert_text msgPrefix log n =
     msgPrefix @ [CHR 0x0A] @ log @
       (if n > 0 then [CHR 0x0A] @ ''Suppressed '' @ Itoa n @ '' duplicate(s)'' else []) \<and>
   (is_int64 n \<longrightarrow> Atoi (Itoa n) = Inr n) \<and>
   (json_Marshal e [(''text'', alert_text msgPrefix log n)] = Inr body \<and>
    newRequest_error e ''POST'' url = None \<longrightarrow>
      attempts (sendGoogleChatAlert e url msgPrefix log n w) =
        attempts w @ [\<lparr> Method = ''POST'', URL = url,
                         Header = [(''Content-Type'', ''application/json'')],
                         Body = body \<rparr>])"
proof (intro conjI impI)
  show "alert_text msgPrefix log n =
     msgPrefix @ [CHR 0x0A] @ log @
       (if n > 0 then [CHR 0x0A] @ ''Suppressed '' @ Itoa n @ '' duplicate(s)'' else [])"
    by (simp add: alert_text_def Let_def)
next
  assume "is_int64 n"
  then show "Atoi (Itoa n) = Inr n" by (rule Atoi_Itoa)
next
  assume "json_Marshal e [(''text'', alert_text msgPrefix log n)] = Inr body \<and>
    newRequest_error e ''POST'' url = None"
  then show "attempts (sendGoogleChatAlert e url msgPrefix log n w) =
        attempts w @ [\<lparr> Method = ''POST'', URL = url,
                         Header = [(''Content-Type'', ''application/json'')],
                         Body = body \<rparr>]"
    by (simp add: sendGoogleChatAlert_def Let_def split: sum.splits)
qed

theorem alert_payload_witness:
  "alert_text ''node-1'' ''ERROR disk full'' 3 =
     ''node-1'' @ [CHR 0x0A] @ ''ERROR disk full'' @ [CHR 0x0A] @ ''Suppressed 3 duplicate(s)'' \<and>
   alert_text ''node-1'' ''ERROR disk full'' 0 = ''node-1'' @ [CHR 0x0A] @ ''ERROR disk full'' \<and>
   attempts (sendGoogleChatAlert demo_env ''https://chat.example/hook'' ''node-1''
               ''ERROR disk full'' 0 demo_world) =
     [\<lparr> Method = ''POST'', URL = ''https://chat.example/hook'',
         Header = [(''Content-Type'', ''application/json'')],
         Body = ''{text: node-1'' @ [CHR 0x0A] @ ''ERROR disk full}'' \<rparr>]"
proof -
  have m: "json_Marshal demo_env [(''text'', alert_text ''node-1'' ''ERROR disk full'' 0)] =
        Inr (''{text: node-1'' @ [CHR 0x0A] @ ''ERROR disk full}'') \<and>
      newRequest_error demo_env ''POST'' ''https://chat.example/hook'' = None"
    by (simp add: eval_demo alert_text_def Let_def)
  have i: "is_int64 3" by (simp add: is_int64_def minInt64_def maxInt64_def)
  from alert_payload [of "''node-1''" "''ERROR disk full''" 0 demo_env _
      "''https://chat.example/hook''" demo_world] m
  have a: "attempts (sendGoogleChatAlert demo_env ''https://chat.example/hook'' ''node-1''
               ''ERROR disk full'' 0 demo_world) =
     attempts demo_world @ [\<lparr> Method = ''POST'', URL = ''https://chat.example/hook'',
         Header = [(''Content-Type'', ''application/json'')],
         Body = ''{text: node-1'' @ [CHR 0x0A] @ ''ERROR disk full}'' \<rparr>]"
    by blast
  from alert_payload [of "''node-1''" "''ERROR disk full''" 3] i
  have b: "alert_text ''node-1'' ''ERROR disk full'' 3 =
     ''node-1'' @ [CHR 0x0A] @ ''ERROR disk full'' @
       (if (3::int) > 0 then [CHR 0x0A] @ ''Suppressed '' @ Itoa 3 @ '' duplicate(s)'' else [])"
    by blast
  have c: "Itoa 3 = ''3''" by (simp add: Itoa_def digits.simps)
  from a b c show ?thesis
    by (simp add: alert_text_def Let_def demo_world_def)
qed

text \<open>What the client answers shows neither in the alert manager nor in the requests.\<close>

lemma sendGoogleChatAlert_attempts_env:
  assumes "attempts w1 = attempts w2"
  shows "attempts (sendGoogleChatAlert (e\<lparr>client_Do := d\<rparr>) url p l n w1) =
         attempts (sendGoogleChatAlert e url p l n w2)"
  using assms by (simp add: sendGoogleChatAlert_def Let_def split: sum.splits option.splits)

lemma logToFile_env: "logToFile (e\<lparr>client_Do := d\<rparr>) l f p w = logToFile e l f p w"
  by (simp add: logToFile_def Let_def split: option.splits)

lemma handle_line_env:
  assumes "attempts w1 = attempts w2"
  shows "fst (handle_line (e\<lparr>client_Do := d\<rparr>) config ps (am, w1) ln) =
           fst (handle_line e config ps (am, w2) ln) \<and>
         attempts (snd (handle_line (e\<lparr>client_Do := d\<rparr>) config ps (am, w1) ln)) =
           attempts (snd (handle_line e config ps (am, w2) ln))"
proof -
  obtain now logLine where ln: "ln = (now, logLine)" by (cases ln)
  let ?w1 = "logToFile e logLine (LogFile config) (flag_msg e) (w1\<lparr>stdout := stdout w1 @ [logLine]\<rparr>)"
  let ?w2 = "logToFile e logLine (LogFile config) (flag_msg e) (w2\<lparr>stdout := stdout w2 @ [logLine]\<rparr>)"
  have a: "attempts ?w1 = attempts ?w2"
    using assms by (simp add: logToFile_attempts)
  show ?thesis
    using a sendGoogleChatAlert_attempts_env [OF a]
    by (simp add: handle_line_def Let_def ln logToFile_env split: prod.splits)
qed

lemma scan_loop_env:
  assumes "attempts w1 = attempts w2"
  shows "fst (scan_loop (e\<lparr>client_Do := d\<rparr>) config ps (am, w1) lines) =
           fst (scan_loop e config ps (am, w2) lines) \<and>
         attempts (snd (scan_loop (e\<lparr>client_Do := d\<rparr>) config ps (am, w1) lines)) =
           attempts (snd (scan_loop e config ps (am, w2) lines))"
  using assms
proof (induction lines arbitrary: am w1 w2)
  case Nil
  then show ?case by simp
next
  case (Cons ln lines)
  obtain am1 v1 where h1: "handle_line (e\<lparr>client_Do := d\<rparr>) config ps (am, w1) ln = (am1, v1)"
    by (cases "handle_line (e\<lparr>client_Do := d\<rparr>) config ps (am, w1) ln")
  obtain am2 v2 where h2: "handle_line e config ps (am, w2) ln = (am2, v2)"
    by (cases "handle_line e config ps (am, w2) ln")
  from handle_line_env [OF Cons.prems, where e = e and d = d and config = config and ps = ps
      and am = am and ln = ln] h1 h2
  have eq: "am1 = am2" "attempts v1 = attempts v2" by simp_all
  show ?case using Cons.IH [OF eq(2), of am2] h1 h2 eq(1) by simp
qed

text \<open>
  Claim C8, as amended. When the request can be built, the dispatcher hands it to the
  client once. A transport failure is written to the diagnostic stream and nothing to
  standard output; a response writes nothing to the diagnostic stream, and a line to
  standard output exactly when its status is above 299. When the message cannot be
  encoded or the request cannot be built, the error is written to the diagnostic stream
  and nothing else happens. In every case the dispatcher returns, having made at most one
  request and changed no file. What the client answers changes neither the alert manager
  the scan loop ends with nor the requests it makes.
\<close>

theorem delivery_failure_is_swallowed:
  "(json_Marshal e [(''text'', alert_text p l n)] = Inr body \<and>
    newRequest_error e ''POST'' url = None \<and>
    req = \<lparr> Method = ''POST'', URL = url,
            Header = [(''Content-Type'', ''application/json'')], Body = body \<rparr> \<longrightarrow>
      attempts (sendGoogleChatAlert e url p l n w) = attempts w @ [req] \<and>
      (case client_Do e (length (attempts w)) req of
         Inl err \<Rightarrow>
           stderr (sendGoogleChatAlert e url p l n w) =
             stderr w @ [''Error sending alert: '' @ err] \<and>
           stdout (sendGoogleChatAlert e url p l n w) = stdout w
       | Inr resp \<Rightarrow>
           stderr (sendGoogleChatAlert e url p l n w) = stderr w \<and>
           stdout (sendGoogleChatAlert e url p l n w) =
             (if StatusCode resp > 299
              then stdout w @ [''Alert sent to Google Chat, response status: '' @ Status resp]
              else stdout w))) \<and>
   (json_Marshal e [(''text'', alert_text p l n)] = Inl err \<longrightarrow>
      sendGoogleChatAlert e url p l n w =
        w\<lparr>stderr := stderr w @ [''Error creating JSON message: '' @ err]\<rparr>) \<and>
   (json_Marshal e [(''text'', alert_text p l n)] = Inr body \<and>
    newRequest_error e ''POST'' url = Some err \<longrightarrow>
      sendGoogleChatAlert e url p l n w =
        w\<lparr>stderr := stderr w @ [''Error creating request: '' @ err]\<rparr>) \<and>
   length (attempts (sendGoogleChatAlert e url p l n w)) \<le> length (attempts w) + 1 \<and>
   files (sendGoogleChatAlert e url p l n w) = files w \<and>
   fst (scan_loop (e\<lparr>client_Do := d\<rparr>) config ps (am, w) lines) =
     fst (scan_loop e config ps (am, w) lines) \<and>
   attempts (snd (scan_loop (e\<lparr>client_Do := d\<rparr>) config ps (am, w) lines)) =
     attempts (snd (scan_loop e config ps (am, w) lines))"
proof (intro conjI impI)
  assume h: "json_Marshal e [(''text'', alert_text p l n)] = Inr body \<and>
    newRequest_error e ''POST'' url = None \<and>
    req = \<lparr> Method = ''POST'', URL = url,
            Header = [(''Content-Type'', ''application/json'')], Body = body \<rparr>"
  then show "attempts (sendGoogleChatAlert e url p l n w) = attempts w @ [req]"
    by (simp add: sendGoogleChatAlert_def Let_def split: sum.splits)
  from h show "case client_Do e (length (attempts w)) req of
         Inl err \<Rightarrow>
           stderr (sendGoogleChatAlert e url p l n w) =
             stderr w @ [''Error sending alert: '' @ err] \<and>
           stdout (sendGoogleChatAlert e url p l n w) = stdout w
       | Inr resp \<Rightarrow>
           stderr (sendGoogleChatAlert e url p l n w) = stderr w \<and>
           stdout (sendGoogleChatAlert e url p l n w) =
             (if StatusCode resp > 299
              then stdout w @ [''Alert sent to Google Chat, response status: '' @ Status resp]
              else stdout w)"
    by (simp add: sendGoogleChatAlert_def Let_def split: sum.splits)
next
  assume "json_Marshal e [(''text'', alert_text p l n)] = Inl err"
  then show "sendGoogleChatAlert e url p l n w =
        w\<lparr>stderr := stderr w @ [''Error creating JSON message: '' @ err]\<rparr>"
    by (simp add: sendGoogleChatAlert_def Let_def)
next
  assume "json_Marshal e [(''text'', alert_text p l n)] = Inr body \<and>
    newRequest_error e ''POST'' url = Some err"
  then show "sendGoogleChatAlert e url p l n w =
        w\<lparr>stderr := stderr w @ [''Error creating request: '' @ err]\<rparr>"
    by (simp add: sendGoogleChatAlert_def Let_def)
next
  show "length (attempts (sendGoogleChatAlert e url p l n w)) \<le> length (attempts w) + 1"
    by (simp add: sendGoogleChatAlert_def Let_def split: sum.splits option.splits)
next
  show "files (sendGoogleChatAlert e url p l n w) = files w"
    by (rule sendGoogleChatAlert_files)
next
  show "fst (scan_loop (e\<lparr>client_Do := d\<rparr>) config ps (am, w) lines) =
     fst (scan_loop e config ps (am, w) lines)"
    using scan_loop_env [OF refl] by blast
next
  show "attempts (snd (scan_loop (e\<lparr>client_Do := d\<rparr>) config ps (am, w) lines)) =
     attempts (snd (scan_loop e config ps (am, w) lines))"
    using scan_loop_env [OF refl] by blast
qed

text \<open>
  Claim C8 as stated fails: a response with status 404 leaves the diagnostic stream
  empty; the status is reported on standard output.
\<close>

theorem status_404_not_on_diagnostic_stream:
  "stderr (sendGoogleChatAlert
             (demo_env\<lparr>client_Do :=
                (\<lambda>n req. Inr \<lparr>StatusCode = 404, Status = ''404 Not Found''\<rparr>)\<rparr>)
             ''https://chat.example/hook'' ''node-1'' ''ERROR disk full'' 0 demo_world) = [] \<and>
   stdout (sendGoogleChatAlert
             (demo_env\<lparr>client_Do :=
                (\<lambda>n req. Inr \<lparr>StatusCode = 404, Status = ''404 Not Found''\<rparr>)\<rparr>)
             ''https://chat.example/hook'' ''node-1'' ''ERROR disk full'' 0 demo_world) =
     [''Alert sent to Google Chat, response status: 404 Not Found'']"
  by (simp add: eval_demo sendGoogleChatAlert_def alert_text_def Let_def)

theorem delivery_failure_is_swallowed_witness:
  "stderr (sendGoogleChatAlert
             (demo_env\<lparr>client_Do := (\<lambda>n req. Inl ''connection refused'')\<rparr>)
             ''https://chat.example/hook'' ''node-1'' ''ERROR disk full'' 0 demo_world) =
     [''Error sending alert: connection refused''] \<and>
   length (attempts (sendGoogleChatAlert
             (demo_env\<lparr>client_Do := (\<lambda>n req. Inl ''connection refused'')\<rparr>)
             ''https://chat.example/hook'' ''node-1'' ''ERROR disk full'' 0 demo_world)) = 1 \<and>
   fst (scan_loop (demo_env\<lparr>client_Do := (\<lambda>n req. Inl ''connection refused'')\<rparr>)
          demo_config [''ERROR'']
          (NewAlertManager (10 * Minute) [''ERROR'' \<mapsto> 5 * Minute], demo_world)
          (child_output demo_env @ [(6 * Minute, ''ERROR again'')])) =
   fst (scan_loop demo_env demo_config [''ERROR'']
          (NewAlertManager (10 * Minute) [''ERROR'' \<mapsto> 5 * Minute], demo_world)
          (child_output demo_env @ [(6 * Minute, ''ERROR again'')]))"
proof -
  let ?e = "demo_env\<lparr>client_Do := (\<lambda>n req. Inl ''connection refused'')\<rparr>"
  let ?body = "''{text: node-1'' @ [CHR 0x0A] @ ''ERROR disk full}''"
  let ?req = "\<lparr> Method = ''POST'', URL = ''https://chat.example/hook'',
            Header = [(''Content-Type'', ''application/json'')], Body = ?body \<rparr>"
  have h: "json_Marshal ?e [(''text'', alert_text ''node-1'' ''ERROR disk full'' 0)] = Inr ?body \<and>
    newRequest_error ?e ''POST'' ''https://chat.example/hook'' = None \<and> ?req = ?req"
    by (simp add: eval_demo alert_text_def Let_def)
  note inst = delivery_failure_is_swallowed
    [where e = "?e" and p = "''node-1''" and l = "''ERROR disk full''" and n = 0
        and body = "?body" and url = "''https://chat.example/hook''" and req = "?req"
        and w = demo_world]
  have a: "attempts (sendGoogleChatAlert ?e ''https://chat.example/hook'' ''node-1''
              ''ERROR disk full'' 0 demo_world) = attempts demo_world @ [?req]"
    using inst h by blast
  have b: "stderr (sendGoogleChatAlert ?e ''https://chat.example/hook'' ''node-1''
              ''ERROR disk full'' 0 demo_world) = [''Error sending alert: connection refused'']"
    by (simp add: eval_demo sendGoogleChatAlert_def alert_text_def Let_def)
  have d: "fst (scan_loop (demo_env\<lparr>client_Do := (\<lambda>n req. Inl ''connection refused'')\<rparr>)
          demo_config [''ERROR'']
          (NewAlertManager (10 * Minute) [''ERROR'' \<mapsto> 5 * Minute], demo_world)
          (child_output demo_env @ [(6 * Minute, ''ERROR again'')])) =
        fst (scan_loop demo_env demo_config [''ERROR'']
          (NewAlertManager (10 * Minute) [''ERROR'' \<mapsto> 5 * Minute], demo_world)
          (child_output demo_env @ [(6 * Minute, ''ERROR again'')]))"
    using delivery_failure_is_swallowed
      [where e = demo_env and w = demo_world and d = "\<lambda>n req. Inl ''connection refused''"
          and config = demo_config and ps = "[''ERROR'']"
          and am = "NewAlertManager (10 * Minute) [''ERROR'' \<mapsto> 5 * Minute]"
          and lines = "child_output demo_env @ [(6 * Minute, ''ERROR again'')]"]
    by blast
  from a b d show ?thesis by (simp add: demo_world_def)
qed

end
